theory Spec2Isabelle
  imports Complex_Main "HOL-Library.Multiset"
begin

section \<open>Floating-point values as NumPy handles them\<close>

text \<open>
  The arrays of \<^verbatim>\<open>clustering.py\<close> hold IEEE doubles. A double is modelled as an exact
  real number or one of the three special values that NumPy produces instead of raising:
  \<open>PInf\<close>, \<open>NInf\<close> and \<open>NaN\<close>. Rounding and overflow are not modelled (finite
  arithmetic is exact) and zero carries no sign, so a non-zero finite value divided by zero
  takes the sign of the numerator. Every other rule is the IEEE one: \<open>0/0\<close>,
  \<open>inf - inf\<close> and \<open>0 * inf\<close> are \<open>NaN\<close>, \<open>NaN\<close> propagates through arithmetic,
  and every ordered comparison with \<open>NaN\<close> is false.
\<close>

datatype fl = Fin real | PInf | NInf | NaN

fun fneg :: "fl \<Rightarrow> fl" where
  "fneg (Fin x) = Fin (- x)"
| "fneg PInf = NInf"
| "fneg NInf = PInf"
| "fneg NaN = NaN"

fun fabs :: "fl \<Rightarrow> fl" where
  "fabs (Fin x) = Fin \<bar>x\<bar>"
| "fabs PInf = PInf"
| "fabs NInf = PInf"
| "fabs NaN = NaN"

fun fadd :: "fl \<Rightarrow> fl \<Rightarrow> fl" where
  "fadd (Fin x) (Fin y) = Fin (x + y)"
| "fadd NaN b = NaN"
| "fadd a NaN = NaN"
| "fadd PInf NInf = NaN"
| "fadd NInf PInf = NaN"
| "fadd PInf b = PInf"
| "fadd a PInf = PInf"
| "fadd NInf b = NInf"
| "fadd a NInf = NInf"

definition fsub :: "fl \<Rightarrow> fl \<Rightarrow> fl" where
  "fsub a b = fadd a (fneg b)"

text \<open>The sign of a value that is not \<open>NaN\<close>: \<open>-1\<close>, \<open>0\<close> or \<open>1\<close>.\<close>

fun fsign :: "fl \<Rightarrow> int" where
  "fsign (Fin x) = (if x < 0 then - 1 else if x = 0 then 0 else 1)"
| "fsign PInf = 1"
| "fsign NInf = - 1"
| "fsign NaN = 0"

definition inf_of_sign :: "int \<Rightarrow> fl" where
  "inf_of_sign s = (if s = 0 then NaN else if 0 < s then PInf else NInf)"

fun fmul :: "fl \<Rightarrow> fl \<Rightarrow> fl" where
  "fmul (Fin x) (Fin y) = Fin (x * y)"
| "fmul NaN b = NaN"
| "fmul a NaN = NaN"
| "fmul a b = inf_of_sign (fsign a * fsign b)"

fun fdiv :: "fl \<Rightarrow> fl \<Rightarrow> fl" where
  "fdiv (Fin x) (Fin y) = (if y = 0 then inf_of_sign (fsign (Fin x)) else Fin (x / y))"
| "fdiv NaN b = NaN"
| "fdiv a NaN = NaN"
| "fdiv (Fin x) b = Fin 0"
| "fdiv a (Fin y) = inf_of_sign (fsign a * (if y < 0 then - 1 else 1))"
| "fdiv a b = NaN"

fun fsqrt :: "fl \<Rightarrow> fl" where
  "fsqrt (Fin x) = (if x < 0 then NaN else Fin (sqrt x))"
| "fsqrt PInf = PInf"
| "fsqrt NInf = NaN"
| "fsqrt NaN = NaN"

fun flt :: "fl \<Rightarrow> fl \<Rightarrow> bool" where
  "flt (Fin x) (Fin y) = (x < y)"
| "flt NaN b = False"
| "flt a NaN = False"
| "flt a NInf = False"
| "flt PInf b = False"
| "flt a b = True"

definition fle :: "fl \<Rightarrow> fl \<Rightarrow> bool" where
  "fle a b = (a \<noteq> NaN \<and> b \<noteq> NaN \<and> \<not> flt b a)"

definition fgt :: "fl \<Rightarrow> fl \<Rightarrow> bool" where
  "fgt a b = flt b a"

text \<open>\<^verbatim>\<open>np.sum\<close> of a one-dimensional array; the sum of no element is \<open>0.0\<close>.\<close>

definition fsum :: "fl list \<Rightarrow> fl" where
  "fsum xs = foldr fadd xs (Fin 0)"

definition of_py_int :: "int \<Rightarrow> fl" where
  "of_py_int i = Fin (of_int i)"

type_synonym vec = "fl list"

text \<open>
  A two-dimensional array is the list of its rows. NumPy arrays are rectangular; the
  theorems that depend on it assume \<open>rect\<close>. An array with no row has no column here.
\<close>

type_synonym matrix = "fl list list"

definition ncols :: "matrix \<Rightarrow> nat" where
  "ncols m = (case m of [] \<Rightarrow> 0 | r # _ \<Rightarrow> length r)"

definition rect :: "matrix \<Rightarrow> bool" where
  "rect m = list_all (\<lambda>r. length r = ncols m) m"

section \<open>Exceptions\<close>

datatype exn =
    NotFitted                \<comment> \<open>\<^verbatim>\<open>ValueError\<close> of \<^verbatim>\<open>_check_fit\<close>\<close>
  | UnexpectedOrder          \<comment> \<open>\<^verbatim>\<open>ValueError('Order contains unexpected values')\<close>\<close>
  | ShapeMismatch            \<comment> \<open>operands of \<^verbatim>\<open>!=\<close> that do not broadcast\<close>
  | IndexError
  | TypeError
  | SampleLargerThanPopulation  \<comment> \<open>\<^verbatim>\<open>ValueError\<close> of \<^verbatim>\<open>RandomState.choice\<close>\<close>
  | UnboundLocalError
  | EmptyArgExtremum         \<comment> \<open>\<^verbatim>\<open>ValueError\<close> of \<^verbatim>\<open>argmax\<close>/\<^verbatim>\<open>argmin\<close> on an empty axis\<close>

section \<open>The clustering object\<close>

datatype fit_state = Unfitted | Raw | Epochs | Evoked

text \<open>
  \<^verbatim>\<open>random_state\<close> is \<^verbatim>\<open>None\<close>, an integer seed or a \<^verbatim>\<open>RandomState\<close> instance; \<open>'g\<close>
  is the type of the generator's internal state.
\<close>

datatype 'g random_state = NoSeed | Seed int | Generator 'g

record 'g ModKMeans =
  n_clusters :: nat
  current_fit :: fit_state
  cluster_centers :: "matrix option"
  GEV :: "fl option"
  info :: "string list option"   \<comment> \<open>\<^verbatim>\<open>info['ch_names']\<close>, all the methods read of it\<close>
  random_state :: "'g random_state"
  n_init :: nat
  max_iter :: nat
  tol :: fl
  labels :: "nat list option"

definition check_fit :: "('g, 'x) ModKMeans_scheme \<Rightarrow> exn option" where
  "check_fit self = (if current_fit self = Unfitted then Some NotFitted else None)"

subsection \<open>\<^verbatim>\<open>reorder\<close>\<close>

text \<open>
  \<^verbatim>\<open>(np.sort(order) != np.arange(0, K, 1)).any()\<close>: the two one-dimensional arrays are
  compared element by element when they have the same length, a length-one array is
  broadcast against the other, and any other pair of lengths makes the comparison fail.
\<close>

definition broadcast_ne_any :: "int list \<Rightarrow> int list \<Rightarrow> exn + bool" where
  "broadcast_ne_any a b =
     (if length a = length b then Inr (list_ex (\<lambda>(x, y). x \<noteq> y) (zip a b))
      else if length a = 1 then Inr (list_ex (\<lambda>y. hd a \<noteq> y) b)
      else if length b = 1 then Inr (list_ex (\<lambda>x. x \<noteq> hd b) a)
      else Inl ShapeMismatch)"

definition arange :: "nat \<Rightarrow> int list" where
  "arange k = map int [0..<k]"

text \<open>
  \<^verbatim>\<open>centers[order]\<close>: integer-array indexing of the rows; a negative index counts from
  the end and an index outside \<open>[-n, n)\<close> raises \<^verbatim>\<open>IndexError\<close>.
\<close>

fun take_rows :: "'a list \<Rightarrow> int list \<Rightarrow> exn + 'a list" where
  "take_rows m [] = Inr []"
| "take_rows m (i # is) =
     (let n = int (length m); j = (if i < 0 then n + i else i) in
      if 0 \<le> j \<and> j < n then
        (case take_rows m is of Inl e \<Rightarrow> Inl e | Inr rs \<Rightarrow> Inr (m ! nat j # rs))
      else Inl IndexError)"

text \<open>
  A method returns the object as the call leaves it together with the exception raised,
  if any.
\<close>

definition reorder :: "('g, 'x) ModKMeans_scheme \<Rightarrow> int list \<Rightarrow>
    ('g, 'x) ModKMeans_scheme \<times> exn option" where
  "reorder self order =
     (case check_fit self of Some e \<Rightarrow> (self, Some e) | None \<Rightarrow>
      (case broadcast_ne_any (sort order) (arange (n_clusters self)) of
         Inl e \<Rightarrow> (self, Some e)
       | Inr True \<Rightarrow> (self, Some UnexpectedOrder)
       | Inr False \<Rightarrow>
          (case cluster_centers self of None \<Rightarrow> (self, Some TypeError)
           | Some c \<Rightarrow>
              (case take_rows c order of Inl e \<Rightarrow> (self, Some e)
               | Inr c' \<Rightarrow> (self\<lparr>cluster_centers := Some c'\<rparr>, None)))))"

section \<open>Array kernels\<close>

definition sq :: "fl \<Rightarrow> fl" where
  "sq x = fmul x x"

definition col :: "matrix \<Rightarrow> nat \<Rightarrow> vec" where
  "col m t = map (\<lambda>r. r ! t) m"

definition dot :: "vec \<Rightarrow> vec \<Rightarrow> fl" where
  "dot v w = fsum (map2 fmul v w)"

text \<open>\<^verbatim>\<open>np.sum\<close> of a two-dimensional array.\<close>

definition fsum2 :: "matrix \<Rightarrow> fl" where
  "fsum2 m = fsum (concat m)"

text \<open>\<^verbatim>\<open>np.linalg.norm\<close> of a vector.\<close>

definition fnorm :: "vec \<Rightarrow> fl" where
  "fnorm v = fsqrt (fsum (map sq v))"

text \<open>\<^verbatim>\<open>v /= np.linalg.norm(v)\<close>\<close>

definition div_by_norm :: "vec \<Rightarrow> vec" where
  "div_by_norm v = map (\<lambda>x. fdiv x (fnorm v)) v"

text \<open>\<^verbatim>\<open>a.dot(b)\<close> for two-dimensional \<open>a\<close> and \<open>b\<close>.\<close>

definition matmul :: "matrix \<Rightarrow> matrix \<Rightarrow> matrix" where
  "matmul a b = map (\<lambda>r. map (\<lambda>t. dot r (col b t)) [0..<ncols b]) a"

text \<open>
  \<^verbatim>\<open>np.argmax\<close> and \<^verbatim>\<open>np.argmin\<close> of a non-empty vector: the index of the first
  \<open>NaN\<close> when there is one, and of the first extremum otherwise. The accumulator is the
  best index and value so far.
\<close>

fun argmax_from :: "nat \<Rightarrow> fl \<Rightarrow> nat \<Rightarrow> fl list \<Rightarrow> nat" where
  "argmax_from bi bv i [] = bi"
| "argmax_from bi bv i (y # ys) =
     (if bv \<noteq> NaN \<and> (y = NaN \<or> flt bv y) then argmax_from i y (Suc i) ys
      else argmax_from bi bv (Suc i) ys)"

fun argmin_from :: "nat \<Rightarrow> fl \<Rightarrow> nat \<Rightarrow> fl list \<Rightarrow> nat" where
  "argmin_from bi bv i [] = bi"
| "argmin_from bi bv i (y # ys) =
     (if bv \<noteq> NaN \<and> (y = NaN \<or> flt y bv) then argmin_from i y (Suc i) ys
      else argmin_from bi bv (Suc i) ys)"

definition argmax :: "fl list \<Rightarrow> nat" where
  "argmax xs = (case xs of [] \<Rightarrow> 0 | x # ys \<Rightarrow> argmax_from 0 x 1 ys)"

definition argmin :: "fl list \<Rightarrow> nat" where
  "argmin xs = (case xs of [] \<Rightarrow> 0 | x # ys \<Rightarrow> argmin_from 0 x 1 ys)"

text \<open>
  \<^verbatim>\<open>np.argmax(m, axis=0)\<close> for \<open>m\<close> with \<open>n\<close> columns: one index per column, and a
  \<^verbatim>\<open>ValueError\<close> when \<open>m\<close> has no row.
\<close>

definition argmax_axis0 :: "nat \<Rightarrow> matrix \<Rightarrow> exn + nat list" where
  "argmax_axis0 n m =
     (if m = [] then Inl EmptyArgExtremum else Inr (map (\<lambda>t. argmax (col m t)) [0..<n]))"

definition argmin_axis0 :: "nat \<Rightarrow> matrix \<Rightarrow> exn + nat list" where
  "argmin_axis0 n m =
     (if m = [] then Inl EmptyArgExtremum else Inr (map (\<lambda>t. argmin (col m t)) [0..<n]))"

text \<open>\<^verbatim>\<open>x[idx]\<close> for a boolean mask \<open>idx\<close>.\<close>

definition select :: "bool list \<Rightarrow> 'a list \<Rightarrow> 'a list" where
  "select idx xs = map snd (filter fst (zip idx xs))"

section \<open>The random source\<close>

text \<open>
  \<^verbatim>\<open>numpy.random.RandomState\<close> is a library: it is a parameter of the model.
  \<open>new_state s\<close> is the generator \<^verbatim>\<open>RandomState(s)\<close> builds from the seed \<open>s\<close>,
  \<open>draw g n k\<close> is what \<^verbatim>\<open>choice(n, size=k, replace=False)\<close> returns from the state
  \<open>g\<close> when \<open>k \<le> n\<close>, with the state it leaves, and \<open>os_entropy i\<close> is the seed the
  operating system supplies at the \<open>i\<close>-th construction without a seed.
\<close>

record 'g numpy_random =
  new_state :: "int \<Rightarrow> 'g"
  draw :: "'g \<Rightarrow> nat \<Rightarrow> nat \<Rightarrow> nat list \<times> 'g"
  os_entropy :: "nat \<Rightarrow> int"

text \<open>
  What the random source is after a call: the \<^verbatim>\<open>random_state\<close> attribute (an instance
  is advanced in place) and the number of generators built without a seed so far.
\<close>

type_synonym 'g world = "'g random_state \<times> nat"

text \<open>
  \<^verbatim>\<open>if not isinstance(random_state, np.random.RandomState):
      random_state = np.random.RandomState(random_state)\<close>
\<close>

definition as_generator :: "'g numpy_random \<Rightarrow> 'g world \<Rightarrow> 'g \<times> nat" where
  "as_generator rng w =
     (case fst w of
        Generator g \<Rightarrow> (g, snd w)
      | Seed s \<Rightarrow> (new_state rng s, snd w)
      | NoSeed \<Rightarrow> (new_state rng (os_entropy rng (snd w)), Suc (snd w)))"

definition choice :: "'g numpy_random \<Rightarrow> 'g \<Rightarrow> nat \<Rightarrow> nat \<Rightarrow> exn + nat list \<times> 'g" where
  "choice rng g n k = (if n < k then Inl SampleLargerThanPopulation else Inr (draw rng g n k))"

text \<open>The attribute after the generator has moved to \<open>g'\<close>.\<close>

definition advance :: "'g random_state \<Rightarrow> 'g \<Rightarrow> 'g random_state" where
  "advance rs g' = (case rs of Generator g \<Rightarrow> Generator g' | other \<Rightarrow> other)"

section \<open>The modified K-means run\<close>

text \<open>One pass of \<^verbatim>\<open>for state in range(n_states)\<close> in \<^verbatim>\<open>_compute_maps\<close>.\<close>

definition update_state :: "matrix \<Rightarrow> matrix \<Rightarrow> nat list \<Rightarrow> nat \<Rightarrow> matrix \<Rightarrow> matrix" where
  "update_state data activation segmentation state maps =
     (let idx = map (\<lambda>l. l = state) segmentation in
      if length (filter id idx) = 0 then maps[state := map (\<lambda>x. Fin 0) (maps ! state)]
      else maps[state := div_by_norm
             (map (\<lambda>row. dot (select idx row) (select idx (activation ! state))) data)])"

text \<open>
  The body of \<^verbatim>\<open>for _ in range(max_iter)\<close> up to the residual: the new maps, the
  segmentation and the residual.
\<close>

definition kmeans_step :: "matrix \<Rightarrow> nat \<Rightarrow> fl \<Rightarrow> matrix \<Rightarrow> exn + matrix \<times> nat list \<times> fl" where
  "kmeans_step data n_states data_sum_sq maps =
     (let n_channels = length data; n_samples = ncols data;
          activation = matmul maps data in
      case argmax_axis0 n_samples (map (map fabs) activation) of
        Inl e \<Rightarrow> Inl e
      | Inr segmentation \<Rightarrow>
          let maps' = fold (update_state data activation segmentation) [0..<n_states] maps;
              act_sum_sq = fsum (map (\<lambda>t. sq (dot (maps' ! (segmentation ! t)) (col data t)))
                                  [0..<n_samples]);
              residual = fdiv (fabs (fsub data_sum_sq act_sum_sq))
                              (of_py_int (int n_samples * (int n_channels - 1)))
          in Inr (maps', segmentation, residual))"

text \<open>
  \<^verbatim>\<open>for _ in range(max_iter)\<close> with its \<^verbatim>\<open>break\<close>; the first argument counts the
  iterations left. The result is the maps and the segmentation of the last iteration
  run (\<open>None\<close> when \<open>max_iter\<close> is \<open>0\<close>).
\<close>

fun kmeans_loop :: "nat \<Rightarrow> matrix \<Rightarrow> nat \<Rightarrow> fl \<Rightarrow> fl \<Rightarrow> matrix \<Rightarrow> fl \<Rightarrow> nat list option \<Rightarrow>
    exn + matrix \<times> nat list option" where
  "kmeans_loop 0 data n_states thresh dss maps prev_residual seg = Inr (maps, seg)"
| "kmeans_loop (Suc n) data n_states thresh dss maps prev_residual seg =
     (case kmeans_step data n_states dss maps of
        Inl e \<Rightarrow> Inl e
      | Inr (maps', segmentation, residual) \<Rightarrow>
          if flt (fsub prev_residual residual) (fmul thresh residual)
          then Inr (maps', Some segmentation)
          else kmeans_loop n data n_states thresh dss maps' residual (Some segmentation))"

text \<open>\<^verbatim>\<open>_compute_maps\<close> once \<^verbatim>\<open>init_times\<close> has been drawn.\<close>

definition compute_maps_from :: "nat list \<Rightarrow> matrix \<Rightarrow> nat \<Rightarrow> nat \<Rightarrow> fl \<Rightarrow>
    exn + matrix \<times> nat list option" where
  "compute_maps_from init_times data n_states max_it thresh =
     (let data_sum_sq = fsum2 (map (map sq) data);
          maps = map div_by_norm (map (col data) init_times)
      in kmeans_loop max_it data n_states thresh data_sum_sq maps PInf None)"

definition compute_maps :: "'g numpy_random \<Rightarrow> matrix \<Rightarrow> nat \<Rightarrow> nat \<Rightarrow> fl \<Rightarrow> 'g world \<Rightarrow>
    (exn + matrix) \<times> 'g world" where
  "compute_maps rng data n_states max_it thresh w =
     (let (g, k) = as_generator rng w in
      case choice rng g (ncols data) n_states of
        Inl e \<Rightarrow> (Inl e, (fst w, k))
      | Inr (init_times, g') \<Rightarrow>
          (map_sum id fst (compute_maps_from init_times data n_states max_it thresh),
           (advance (fst w) g', k)))"

subsection \<open>\<^verbatim>\<open>_corr_vectors\<close> along axis 0\<close>

text \<open>\<^verbatim>\<open>np.mean\<close> of a vector.\<close>

definition fmean :: "vec \<Rightarrow> fl" where
  "fmean v = fdiv (fsum v) (of_py_int (int (length v)))"

text \<open>\<^verbatim>\<open>np.nan_to_num(x, posinf=0, neginf=0)\<close>\<close>

fun nan_to_num0 :: "fl \<Rightarrow> fl" where
  "nan_to_num0 (Fin x) = Fin x"
| "nan_to_num0 other = Fin 0"

definition center_unit :: "vec \<Rightarrow> vec" where
  "center_unit a = div_by_norm (map (\<lambda>x. fsub x (fmean a)) a)"

definition corr_vectors :: "matrix \<Rightarrow> matrix \<Rightarrow> vec" where
  "corr_vectors A B =
     map (\<lambda>t. nan_to_num0 (fsum (map2 fmul (center_unit (col A t)) (center_unit (col B t)))))
       [0..<ncols A]"

text \<open>\<^verbatim>\<open>m.T\<close> for a list \<open>m\<close> of rows of length \<open>n\<close>.\<close>

definition transpose_rows :: "nat \<Rightarrow> matrix \<Rightarrow> matrix" where
  "transpose_rows n m = map (\<lambda>c. map (\<lambda>r. r ! c) m) [0..<n]"

subsection \<open>\<^verbatim>\<open>ModKMeans._run_mod_kmeans\<close>\<close>

definition gev_of :: "matrix \<Rightarrow> matrix \<Rightarrow> nat list \<Rightarrow> fl" where
  "gev_of data maps segmentation =
     (let gfp_sum_sq = fsum2 (map (map sq) data);
          map_corr = corr_vectors data
                       (transpose_rows (length data) (map (\<lambda>l. maps ! l) segmentation))
      in fdiv (fsum2 (map (\<lambda>row. map (\<lambda>(x, c). sq (fmul x c)) (zip row map_corr)) data))
              gfp_sum_sq)"

definition run_mod_kmeans :: "'g numpy_random \<Rightarrow> ('g, 'x) ModKMeans_scheme \<Rightarrow> matrix \<Rightarrow> 'g world \<Rightarrow>
    (exn + fl \<times> matrix \<times> nat list) \<times> 'g world" where
  "run_mod_kmeans rng self data w =
     (case compute_maps rng data (n_clusters self) (max_iter self) (tol self) w of
        (Inl e, w') \<Rightarrow> (Inl e, w')
      | (Inr maps, w') \<Rightarrow>
          (case argmax_axis0 (ncols data) (map (map fabs) (matmul maps data)) of
             Inl e \<Rightarrow> (Inl e, w')
           | Inr segmentation \<Rightarrow> (Inr (gev_of data maps segmentation, maps, segmentation), w')))"

subsection \<open>\<^verbatim>\<open>ModKMeans._do_fit\<close> and \<^verbatim>\<open>fit\<close>, for \<^verbatim>\<open>n_jobs = 1\<close>\<close>

text \<open>
  The loop \<^verbatim>\<open>for _ in range(self.n_init)\<close>: the first argument counts the restarts left,
  \<open>best_gev\<close> starts at \<open>0\<close> and \<open>best\<close> is \<open>None\<close> as long as \<^verbatim>\<open>best_maps\<close> and
  \<^verbatim>\<open>best_segmentation\<close> are unbound.
\<close>

fun restarts :: "nat \<Rightarrow> 'g numpy_random \<Rightarrow> ('g, 'x) ModKMeans_scheme \<Rightarrow> matrix \<Rightarrow>
    fl \<Rightarrow> (matrix \<times> nat list) option \<Rightarrow> 'g world \<Rightarrow>
    (exn + fl \<times> (matrix \<times> nat list) option) \<times> 'g world" where
  "restarts 0 rng self data best_gev best w = (Inr (best_gev, best), w)"
| "restarts (Suc n) rng self data best_gev best w =
     (case run_mod_kmeans rng self data w of
        (Inl e, w') \<Rightarrow> (Inl e, w')
      | (Inr (gev, maps, segmentation), w') \<Rightarrow>
          if fgt gev best_gev then restarts n rng self data gev (Some (maps, segmentation)) w'
          else restarts n rng self data best_gev best w')"

definition do_fit :: "'g numpy_random \<Rightarrow> ('g, 'x) ModKMeans_scheme \<Rightarrow> matrix \<Rightarrow> 'g world \<Rightarrow>
    (exn + matrix \<times> fl \<times> nat list) \<times> 'g world" where
  "do_fit rng self data w =
     (case restarts (n_init self) rng self data (Fin 0) None w of
        (Inl e, w') \<Rightarrow> (Inl e, w')
      | (Inr (best_gev, None), w') \<Rightarrow> (Inl UnboundLocalError, w')
      | (Inr (best_gev, Some (best_maps, best_segmentation)), w') \<Rightarrow>
          (Inr (best_maps, best_gev, best_segmentation), w'))"

text \<open>
  \<^verbatim>\<open>fit\<close> on the data and channel names of an instance of kind \<open>kind\<close>; the second
  component of the result counts the unseeded generators built.
\<close>

definition fit :: "'g numpy_random \<Rightarrow> ('g, 'x) ModKMeans_scheme \<Rightarrow> fit_state \<Rightarrow> string list \<Rightarrow>
    matrix \<Rightarrow> nat \<Rightarrow> (('g, 'x) ModKMeans_scheme \<times> exn option) \<times> nat" where
  "fit rng self kind ch_names data k =
     (case do_fit rng self data (random_state self, k) of
        (Inl e, (rs, k')) \<Rightarrow> ((self\<lparr>random_state := rs\<rparr>, Some e), k')
      | (Inr (centers, gev, seg), (rs, k')) \<Rightarrow>
          ((self\<lparr>random_state := rs, cluster_centers := Some centers, GEV := Some gev,
                  info := Some ch_names, current_fit := kind\<rparr>, None), k'))"

subsection \<open>\<^verbatim>\<open>ModKMeans._do_fit\<close> and \<^verbatim>\<open>fit\<close>, for every \<^verbatim>\<open>n_jobs\<close>\<close>

text \<open>
  \<^verbatim>\<open>np.argmax\<close> of a non-empty array of objects: the running maximum is replaced by a
  later element only when that element is greater under \<^verbatim>\<open>>\<close>, so a \<open>NaN\<close> is never
  chosen over an earlier element and an earlier \<open>NaN\<close> is never replaced.
\<close>

fun argmax_object_from :: "nat \<Rightarrow> fl \<Rightarrow> nat \<Rightarrow> fl list \<Rightarrow> nat" where
  "argmax_object_from bi bv i [] = bi"
| "argmax_object_from bi bv i (y # ys) =
     (if fgt y bv then argmax_object_from i y (Suc i) ys
      else argmax_object_from bi bv (Suc i) ys)"

definition argmax_object :: "fl list \<Rightarrow> nat" where
  "argmax_object xs = (case xs of [] \<Rightarrow> 0 | x # ys \<Rightarrow> argmax_object_from 0 x 1 ys)"

text \<open>
  \<^verbatim>\<open>parallel(p_fun(data) for i in range(self.n_init))\<close>: every task runs
  \<^verbatim>\<open>_run_mod_kmeans\<close> on a copy of the object, so each run starts from the
  \<^verbatim>\<open>random_state\<close> attribute as it is at the call; the natural number counts the
  generators built without a seed. The result is the list of the runs, or the first
  exception.
\<close>

fun parallel_runs :: "nat \<Rightarrow> 'g numpy_random \<Rightarrow> ('g, 'x) ModKMeans_scheme \<Rightarrow> matrix \<Rightarrow>
    'g random_state \<Rightarrow> nat \<Rightarrow> (exn + (fl \<times> matrix \<times> nat list) list) \<times> nat" where
  "parallel_runs 0 rng self data rs k = (Inr [], k)"
| "parallel_runs (Suc n) rng self data rs k =
     (case run_mod_kmeans rng self data (rs, k) of
        (Inl e, w') \<Rightarrow> (Inl e, snd w')
      | (Inr run, w') \<Rightarrow>
          (case parallel_runs n rng self data rs (snd w') of
             (Inl e, k') \<Rightarrow> (Inl e, k')
           | (Inr runs, k') \<Rightarrow> (Inr (run # runs), k')))"

text \<open>
  \<^verbatim>\<open>_do_fit\<close>. For \<^verbatim>\<open>n_jobs == 1\<close> it is the loop of \<open>do_fit\<close>. Otherwise
  \<^verbatim>\<open>np.array(runs)\<close> is the array of objects with one row \<^verbatim>\<open>(gev, maps, segmentation)\<close>
  per run, \<^verbatim>\<open>np.argmax(runs[:, 0])\<close> picks the row returned, and \<^verbatim>\<open>runs[:, 0]\<close> raises
  \<^verbatim>\<open>IndexError\<close> when there is no run.
\<close>

definition do_fit_n_jobs :: "'g numpy_random \<Rightarrow> ('g, 'x) ModKMeans_scheme \<Rightarrow> matrix \<Rightarrow> int \<Rightarrow>
    'g world \<Rightarrow> (exn + matrix \<times> fl \<times> nat list) \<times> 'g world" where
  "do_fit_n_jobs rng self data n_jobs w =
     (if n_jobs = 1 then do_fit rng self data w
      else case parallel_runs (n_init self) rng self data (fst w) (snd w) of
             (Inl e, k') \<Rightarrow> (Inl e, (fst w, k'))
           | (Inr runs, k') \<Rightarrow>
               if runs = [] then (Inl IndexError, (fst w, k'))
               else (case runs ! argmax_object (map fst runs) of
                       (best_gev, best_maps, best_segmentation) \<Rightarrow>
                         (Inr (best_maps, best_gev, best_segmentation), (fst w, k'))))"

definition fit_n_jobs :: "'g numpy_random \<Rightarrow> ('g, 'x) ModKMeans_scheme \<Rightarrow> fit_state \<Rightarrow>
    string list \<Rightarrow> matrix \<Rightarrow> int \<Rightarrow> nat \<Rightarrow> (('g, 'x) ModKMeans_scheme \<times> exn option) \<times> nat" where
  "fit_n_jobs rng self kind ch_names data n_jobs k =
     (case do_fit_n_jobs rng self data n_jobs (random_state self, k) of
        (Inl e, (rs, k')) \<Rightarrow> ((self\<lparr>random_state := rs\<rparr>, Some e), k')
      | (Inr (centers, gev, seg), (rs, k')) \<Rightarrow>
          ((self\<lparr>random_state := rs, cluster_centers := Some centers, GEV := Some gev,
                  info := Some ch_names, current_fit := kind\<rparr>, None), k'))"

section \<open>The competitive segmentation\<close>

subsection \<open>\<^verbatim>\<open>_segment\<close>\<close>

text \<open>\<^verbatim>\<open>np.std\<close> of a vector: the square root of the mean of \<open>|x - mean|\<^sup>2\<close>.\<close>

definition np_std :: "vec \<Rightarrow> fl" where
  "np_std v = fsqrt (fmean (map (\<lambda>x. sq (fabs (fsub x (fmean v)))) v))"

text \<open>A row of \<^verbatim>\<open>(a.T / np.std(a, axis=1)).T\<close>\<close>

definition div_by_std :: "vec \<Rightarrow> vec" where
  "div_by_std v = map (\<lambda>x. fdiv x (np_std v)) v"

text \<open>\<^verbatim>\<open>Vvar = np.sum(data * data, axis=0)\<close>\<close>

definition Vvar_of :: "matrix \<Rightarrow> vec" where
  "Vvar_of data = map (\<lambda>t. fsum (map sq (col data t))) [0..<ncols data]"

text \<open>
  \<^verbatim>\<open>w = np.zeros((Nu, Nt)); w[(rmat == labels_all)] = 1\<close>: the row \<open>u\<close> of \<open>w\<close> marks the
  samples labelled \<open>u\<close>.
\<close>

definition indicator :: "nat \<Rightarrow> nat list \<Rightarrow> matrix" where
  "indicator Nu labs = map (\<lambda>u. map (\<lambda>l. if l = u then Fin 1 else Fin 0) labs) [0..<Nu]"

text \<open>\<^verbatim>\<open>np.sum(np.dot(w.T, states).T * data, axis=0)\<close>\<close>

definition fitted :: "matrix \<Rightarrow> matrix \<Rightarrow> matrix \<Rightarrow> vec" where
  "fitted w states data =
     map (\<lambda>t. fsum (map (\<lambda>c. fmul (dot (col w t) (col states c)) (data ! c ! t))
                      [0..<length data]))
       [0..<ncols data]"

text \<open>
  The entry \<open>(u, t)\<close> of \<^verbatim>\<open>scipy.signal.convolve2d(w, np.ones((1, 2*h+1)), mode='same')\<close>:
  the number of samples labelled \<open>u\<close> among those at most \<open>h\<close> away from \<open>t\<close>.
\<close>

definition window_count :: "nat \<Rightarrow> nat list \<Rightarrow> nat \<Rightarrow> nat \<Rightarrow> fl" where
  "window_count h labs u t =
     of_py_int (int (length (filter (\<lambda>j. labs ! j = u)
                               [t - h..<min (length labs) (t + h + 1)])))"

text \<open>
  \<^verbatim>\<open>x = (np.tile(Vvar, (Nu, 1)) - np.dot(states, data)**2) / (2 * e * (Ne - 1)) - factor * Nb\<close>
  and \<^verbatim>\<open>dlt = np.argmin(x, axis=0)\<close>.
\<close>

definition next_labels :: "matrix \<Rightarrow> matrix \<Rightarrow> vec \<Rightarrow> fl \<Rightarrow> nat \<Rightarrow> fl \<Rightarrow> nat list \<Rightarrow>
    exn + nat list" where
  "next_labels states data Vvar e half_window_size factor labels_all =
     argmin_axis0 (ncols data)
       (map (\<lambda>u. map (\<lambda>t.
               fsub (fdiv (fsub (Vvar ! t) (sq (dot (states ! u) (col data t))))
                          (fmul (fmul (Fin 2) e) (of_py_int (int (length data) - 1))))
                    (fmul factor (window_count half_window_size labels_all u t)))
             [0..<ncols data])
          [0..<length states])"

text \<open>
  \<^verbatim>\<open>Su = np.sum(Vvar - np.sum(np.dot(w.T, states).T * data, axis=0) ** 2) / (Nt * (Ne - 1))\<close>
  for the \<open>w\<close> of the labels \<open>labels_all\<close>.
\<close>

definition residual :: "matrix \<Rightarrow> matrix \<Rightarrow> vec \<Rightarrow> nat list \<Rightarrow> fl" where
  "residual states data Vvar labels_all =
     fdiv (fsum (map2 (\<lambda>v f. fsub v (sq f)) Vvar
                   (fitted (indicator (length states) labels_all) states data)))
          (of_py_int (int (ncols data) * (int (length data) - 1)))"

text \<open>
  The loop \<^verbatim>\<open>while True\<close>, from the labels and the \<^verbatim>\<open>S0\<close> it starts a pass with. It has
  no other exit than \<^verbatim>\<open>break\<close>, so the result is \<open>None\<close> when it does not end.
\<close>

partial_function (option) segment_loop :: "matrix \<Rightarrow> matrix \<Rightarrow> vec \<Rightarrow> fl \<Rightarrow> nat \<Rightarrow> fl \<Rightarrow> fl \<Rightarrow>
    nat list \<Rightarrow> fl \<Rightarrow> (exn + nat list) option" where
  "segment_loop states data Vvar e half_window_size factor crit labels_all S0 =
     (case next_labels states data Vvar e half_window_size factor labels_all of
        Inl ex \<Rightarrow> Some (Inl ex)
      | Inr dlt \<Rightarrow>
          if fle (fabs (fsub (residual states data Vvar dlt) S0))
                 (fabs (fmul crit (residual states data Vvar dlt)))
          then Some (Inr dlt)
          else segment_loop states data Vvar e half_window_size factor crit dlt
                 (residual states data Vvar dlt))"

text \<open>
  \<^verbatim>\<open>while labels[i] == first_label and i < len(labels) - 1: labels[i] = 0; i += 1\<close> and
  \<^verbatim>\<open>while labels[i] == last_label and i > 0: labels[i] = 0; i -= 1\<close>
  (\<open>labs\<close> stands for \<^verbatim>\<open>labels\<close>).
\<close>

function zero_first :: "nat \<Rightarrow> nat \<Rightarrow> nat list \<Rightarrow> nat list" where
  "zero_first first_label i labs =
     (if labs ! i = first_label \<and> i < length labs - 1
      then zero_first first_label (Suc i) (labs[i := 0]) else labs)"
  by pat_completeness auto
termination by (relation "measure (\<lambda>(f, i, ls). length ls - i)") auto

function zero_last :: "nat \<Rightarrow> nat \<Rightarrow> nat list \<Rightarrow> nat list" where
  "zero_last last_label i labs =
     (if labs ! i = last_label \<and> 0 < i
      then zero_last last_label (i - 1) (labs[i := 0]) else labs)"
  by pat_completeness auto
termination by (relation "measure (\<lambda>(f, i, ls). i)") auto

text \<open>The end of \<^verbatim>\<open>_segment\<close>, from \<^verbatim>\<open>labels = labels_all + 1\<close> on.\<close>

definition unlabel_ends :: "nat list \<Rightarrow> exn + nat list" where
  "unlabel_ends labs =
     (if labs = [] then Inl IndexError
      else let labels1 = zero_first (labs ! 0) 0 labs;
               i = length labels1 - 1
           in Inr (zero_last (labels1 ! i) i labels1))"

text \<open>
  \<^verbatim>\<open>_segment\<close>: \<open>None\<close> when the loop does not end, an exception or the labels otherwise.
  \<^verbatim>\<open>np.dot(states, data)\<close> raises when the states have not one entry per channel.
\<close>

definition segment :: "matrix \<Rightarrow> matrix \<Rightarrow> nat \<Rightarrow> fl \<Rightarrow> fl \<Rightarrow> (exn + nat list) option" where
  "segment data0 states0 half_window_size factor crit =
     (let states = map div_by_std states0;
          data = map div_by_std data0;
          Vvar = Vvar_of data
      in if states \<noteq> [] \<and> ncols states \<noteq> length data then Some (Inl ShapeMismatch)
         else case argmax_axis0 (ncols data) (map (map fabs) (matmul states data)) of
           Inl ex \<Rightarrow> Some (Inl ex)
         | Inr labels_all \<Rightarrow>
             let e = fsum (map2 (\<lambda>v f. fsub v (fdiv (sq f)
                             (of_py_int (int (ncols data) * (int (length data) - 1)))))
                           Vvar (fitted (indicator (length states) labels_all) states data))
             in (case segment_loop states data Vvar e half_window_size factor crit
                        labels_all (Fin 0) of
                   None \<Rightarrow> None
                 | Some (Inl ex) \<Rightarrow> Some (Inl ex)
                 | Some (Inr dlt) \<Rightarrow> Some (unlabel_ends (map Suc dlt))))"

subsection \<open>\<^verbatim>\<open>BaseClustering.predict\<close>\<close>

text \<open>\<^verbatim>\<open>data[:, a:b]\<close> for \<open>0 \<le> a\<close> and \<open>0 \<le> b\<close>.\<close>

definition slice_cols :: "matrix \<Rightarrow> nat \<Rightarrow> nat \<Rightarrow> matrix" where
  "slice_cols m a b = map (\<lambda>r. take (b - a) (drop a r)) m"

text \<open>
  \<^verbatim>\<open>segmentation[a:b] = v\<close>: the value must have the length of the slice, or the length
  one, in which case it is broadcast.
\<close>

definition assign_slice :: "nat list \<Rightarrow> nat \<Rightarrow> nat \<Rightarrow> nat list \<Rightarrow> exn + nat list" where
  "assign_slice segmentation a b v =
     (let n = length (take (b - a) (drop a segmentation)) in
      if length v = n then Inr (take a segmentation @ v @ drop (max a b) segmentation)
      else if length v = 1
        then Inr (take a segmentation @ replicate n (hd v) @ drop (max a b) segmentation)
      else Inl ShapeMismatch)"

text \<open>
  \<^verbatim>\<open>for onset, end in zip(onsets, ends)\<close>: the samples from \<^verbatim>\<open>end\<close> to \<^verbatim>\<open>onset\<close>
  (excluded) are segmented on their own when they are at least
  \<^verbatim>\<open>2 * half_window_size + 1\<close>.
\<close>

fun segment_intervals :: "matrix \<Rightarrow> matrix \<Rightarrow> nat \<Rightarrow> fl \<Rightarrow> fl \<Rightarrow> (nat \<times> nat) list \<Rightarrow> nat list \<Rightarrow>
    (exn + nat list) option" where
  "segment_intervals data centers half_window_size factor crit [] segmentation =
     Some (Inr segmentation)"
| "segment_intervals data centers half_window_size factor crit ((onset, end') # rest) segmentation =
     (if 2 * int half_window_size + 1 \<le> int onset - int end' then
        (case segment (slice_cols data end' onset) centers half_window_size factor crit of
           None \<Rightarrow> None
         | Some (Inl ex) \<Rightarrow> Some (Inl ex)
         | Some (Inr labs) \<Rightarrow>
             (case assign_slice segmentation end' onset labs of
                Inl ex \<Rightarrow> Some (Inl ex)
              | Inr segmentation' \<Rightarrow>
                  segment_intervals data centers half_window_size factor crit rest segmentation'))
      else segment_intervals data centers half_window_size factor crit rest segmentation)"

text \<open>
  \<^verbatim>\<open>predict\<close> on an instance of kind \<open>inst\<close> with the data \<open>data\<close>. The onsets and the ends
  of the annotations \<^verbatim>\<open>BAD\<close> are what \<^verbatim>\<open>_annotations_starts_stops\<close> of MNE returns for the
  instance: they are parameters. An \<^verbatim>\<open>Evoked\<close> has no annotation.
\<close>

definition predict :: "('g, 'x) ModKMeans_scheme \<Rightarrow> fit_state \<Rightarrow> matrix \<Rightarrow> bool \<Rightarrow> nat list \<Rightarrow> nat list \<Rightarrow>
    nat \<Rightarrow> fl \<Rightarrow> fl \<Rightarrow> (exn + nat list) option" where
  "predict self inst data reject_by_annotation bad_onsets bad_ends half_window_size factor crit =
     (case check_fit self of Some e \<Rightarrow> Some (Inl e) | None \<Rightarrow>
      if inst \<noteq> Raw \<and> inst \<noteq> Evoked then Some (Inl TypeError)
      else case cluster_centers self of None \<Rightarrow> Some (Inl TypeError) | Some centers \<Rightarrow>
        if inst = Raw \<and> reject_by_annotation then
          (if bad_onsets = [] then segment data centers half_window_size factor crit
           else segment_intervals data centers half_window_size factor crit
                  (zip (bad_onsets @ [ncols data - 1]) (0 # bad_ends))
                  (replicate (ncols data) 0))
        else segment data centers half_window_size factor crit)"

section \<open>Example objects\<close>

text \<open>A model fitted with one cluster on two channels.\<close>

definition km_single :: "unit ModKMeans" where
  "km_single = \<lparr>n_clusters = 1, current_fit = Raw,
      cluster_centers = Some [[Fin (3 / 5), Fin (4 / 5)]], GEV = Some (Fin 1),
      info = Some [''Fz'', ''Cz''], random_state = Seed 42, n_init = 1, max_iter = 300,
      tol = Fin (1 / 1000000), labels = None\<rparr>"


text \<open>
  A stand-in for the random library, used where a theorem is evaluated on a concrete
  input: a draw is the \<open>k\<close> consecutive indices from the state on, modulo \<open>n\<close>.
\<close>

definition toy_random :: "nat numpy_random" where
  "toy_random = \<lparr>new_state = (\<lambda>s. nat \<bar>s\<bar>),
      draw = (\<lambda>g n k. (map (\<lambda>i. (g + i) mod n) [0..<k], Suc g)),
      os_entropy = (\<lambda>i. int i)\<rparr>"

text \<open>Three samples of a recording whose four channels carry the same signal.\<close>

definition dup_data :: matrix where
  "dup_data = [[Fin 1, Fin 2, Fin (- 1)], [Fin 1, Fin 2, Fin (- 1)],
               [Fin 1, Fin 2, Fin (- 1)], [Fin 1, Fin 2, Fin (- 1)]]"

text \<open>\<^verbatim>\<open>ModKMeans(n_clusters=2, random_state=42)\<close>, not fitted yet.\<close>

definition km_dup :: "nat ModKMeans" where
  "km_dup = \<lparr>n_clusters = 2, current_fit = Unfitted, cluster_centers = None, GEV = None,
      info = None, random_state = Seed 42, n_init = 100, max_iter = 300,
      tol = Fin (1 / 1000000), labels = None\<rparr>"


text \<open>Two samples of a one-channel recording, and \<^verbatim>\<open>ModKMeans(n_clusters=1, random_state=42)\<close>.\<close>

definition one_channel :: matrix where
  "one_channel = [[Fin 1, Fin 2]]"

definition km_one :: "nat ModKMeans" where
  "km_one = \<lparr>n_clusters = 1, current_fit = Unfitted, cluster_centers = None, GEV = None,
      info = None, random_state = Seed 42, n_init = 100, max_iter = 300,
      tol = Fin (1 / 1000000), labels = None\<rparr>"

text \<open>One sample of a two-channel recording.\<close>

definition one_sample :: matrix where
  "one_sample = [[Fin 1], [Fin 2]]"


text \<open>
  Two samples of a two-channel recording, the second of them zero, and the centres
  a run on it ends with.
\<close>

definition zero_sample :: matrix where
  "zero_sample = [[Fin 3, Fin 0], [Fin 4, Fin 0]]"

definition nan_center :: matrix where
  "nan_center = [[Fin 0, Fin 0], [NaN, NaN]]"

text \<open>
  Five samples of a two-channel recording, and two centres. Divided by the standard
  deviation of their rows they are \<open>five_std_data\<close> and \<open>two_states\<close>.
\<close>

definition five_samples :: matrix where
  "five_samples = [[Fin 3, Fin 1, Fin 0, Fin (- 1), Fin (- 3)],
                   [Fin 5, Fin 5, Fin 5, Fin 5, Fin (- 5)]]"

definition unit_centers :: matrix where
  "unit_centers = [[Fin 1, Fin 0], [Fin 0, Fin 1]]"

definition five_std_data :: matrix where
  "five_std_data = [[Fin (3/2), Fin (1/2), Fin 0, Fin (- (1/2)), Fin (- (3/2))],
     [Fin (5/4), Fin (5/4), Fin (5/4), Fin (5/4), Fin (- (5/4))]]"

definition two_states :: matrix where
  "two_states = [[Fin 2, Fin 0], [Fin 0, Fin 2]]"

text \<open>Two samples of a recording whose second channel is constantly zero.\<close>

definition flat_channel :: matrix where
  "flat_channel = [[Fin 1, Fin (- 1)], [Fin 0, Fin 0]]"

text \<open>
  A model fitted with the two centres, and two recordings of six samples that hold the
  five samples after, respectively before, one sample annotated as bad.
\<close>

definition km_unit :: "unit ModKMeans" where
  "km_unit = \<lparr>n_clusters = 2, current_fit = Raw, cluster_centers = Some unit_centers,
      GEV = Some (Fin 1), info = Some [''Fz'', ''Cz''], random_state = Seed 42, n_init = 100,
      max_iter = 300, tol = Fin (1 / 1000000), labels = None\<rparr>"

definition bad_first :: matrix where
  "bad_first = [[Fin 0, Fin 3, Fin 1, Fin 0, Fin (- 1), Fin (- 3)],
                [Fin 0, Fin 5, Fin 5, Fin 5, Fin 5, Fin (- 5)]]"

definition bad_last :: matrix where
  "bad_last = [[Fin 3, Fin 1, Fin 0, Fin (- 1), Fin (- 3), Fin 0],
               [Fin 5, Fin 5, Fin 5, Fin 5, Fin (- 5), Fin 0]]"

section \<open>Predicates of the statements\<close>

text \<open>
  The cluster \<open>s\<close> received no sample in the segmentation of the last iteration
  (\<open>None\<close> when no iteration ran).
\<close>

fun cluster_empty :: "nat list option \<Rightarrow> nat \<Rightarrow> bool" where
  "cluster_empty None s = False"
| "cluster_empty (Some seg) s = (s \<notin> set seg)"

text \<open>
  What \<^verbatim>\<open>choice(n, size=k, replace=False)\<close> guarantees of its result, as far as the
  theorems need it: \<open>k\<close> indices below \<open>n\<close>.
\<close>

definition valid_random :: "'g numpy_random \<Rightarrow> bool" where
  "valid_random rng = (\<forall>g n k. k \<le> n \<longrightarrow>
     length (fst (draw rng g n k)) = k \<and> (\<forall>t \<in> set (fst (draw rng g n k)). t < n))"

text \<open>
  Two samples of a four-channel recording, orthogonal to each other, the unit maps they
  give and \<^verbatim>\<open>ModKMeans(n_clusters=2, random_state=42)\<close>.
\<close>

definition ortho_data :: matrix where
  "ortho_data = [[Fin 1, Fin 1], [Fin 1, Fin (- 1)], [Fin (- 1), Fin 1], [Fin (- 1), Fin (- 1)]]"

definition ortho_maps :: matrix where
  "ortho_maps = [[Fin (1 / 2), Fin (1 / 2), Fin (- (1 / 2)), Fin (- (1 / 2))],
                 [Fin (1 / 2), Fin (- (1 / 2)), Fin (1 / 2), Fin (- (1 / 2))]]"

definition km_ortho :: "nat ModKMeans" where
  "km_ortho = \<lparr>n_clusters = 2, current_fit = Unfitted, cluster_centers = None, GEV = None,
      info = None, random_state = Seed 42, n_init = 100, max_iter = 300,
      tol = Fin (1 / 1000000), labels = None\<rparr>"

text \<open>A row of length \<open>C\<close> that is some vector divided by its own norm.\<close>

definition normalized_row :: "nat \<Rightarrow> vec \<Rightarrow> bool" where
  "normalized_row C r = (\<exists>v. length v = C \<and> r = div_by_norm v)"

text \<open>
  \<open>K\<close> rows: the zero vector for each cluster that is empty in the segmentation \<open>seg\<close>,
  and a vector divided by its norm for every other.
\<close>

definition zero_or_normalized :: "nat \<Rightarrow> nat \<Rightarrow> matrix \<Rightarrow> nat list option \<Rightarrow> bool" where
  "zero_or_normalized C K maps seg = (length maps = K \<and>
     (\<forall>s < K. if cluster_empty seg s then maps ! s = replicate C (Fin 0)
              else normalized_row C (maps ! s)))"

text \<open>
  \<open>maps\<close> is what a call of \<^verbatim>\<open>_compute_maps\<close> returns from some initial draw, and its
  rows are as above for the segmentation of the last iteration of that call.
\<close>

definition run_result :: "matrix \<Rightarrow> nat \<Rightarrow> nat \<Rightarrow> fl \<Rightarrow> matrix \<Rightarrow> bool" where
  "run_result data K mi th maps = (\<exists>init sg.
      compute_maps_from init data K mi th = Inr (maps, sg) \<and>
      zero_or_normalized (length data) K maps sg)"

text \<open>
  The observation matrix with its sample \<open>j\<close> negated,
  \<^verbatim>\<open>data[:, j] = -data[:, j]\<close> for \<open>j\<close> below the number of samples.
\<close>

definition negate_column :: "nat \<Rightarrow> matrix \<Rightarrow> matrix" where
  "negate_column j data = map (\<lambda>row. row[j := fneg (row ! j)]) data"

text \<open>
  A value negated or not; a matrix with the columns flagged in \<open>E\<close> negated, and one with
  the rows flagged in \<open>F\<close> negated.
\<close>

definition flip_if :: "bool \<Rightarrow> fl \<Rightarrow> fl" where
  "flip_if b x = (if b then fneg x else x)"

definition flip_cols :: "bool list \<Rightarrow> matrix \<Rightarrow> matrix" where
  "flip_cols E data = map (\<lambda>row. map2 flip_if E row) data"

definition flip_rows :: "bool list \<Rightarrow> matrix \<Rightarrow> matrix" where
  "flip_rows F maps = map2 (\<lambda>f row. map (flip_if f) row) F maps"



section \<open>Properties of \<^verbatim>\<open>reorder\<close>\<close>

lemma take_rows_map:
  "\<forall>i \<in> set is. 0 \<le> i \<and> i < int (length m) \<Longrightarrow> take_rows m is = Inr (map (\<lambda>i. m ! nat i) is)"
  by (induction "is") (auto simp: Let_def)

lemma sort_eq_arange_iff: "sort order = arange k \<longleftrightarrow> mset order = mset (arange k)"
proof
  assume "sort order = arange k"
  then have "mset (sort order) = mset (arange k)" by simp
  then show "mset order = mset (arange k)" by simp
next
  assume a: "mset order = mset (arange k)"
  have "sorted (arange k)" unfolding arange_def
    by (simp add: sorted_map strict_sorted_iff[symmetric] sorted_wrt_map)
  then show "sort order = arange k" using a
    by (metis properties_for_sort)
qed

lemma broadcast_same_len:
  "length a = length b \<Longrightarrow> broadcast_ne_any a b = Inr (a \<noteq> b)"
  unfolding broadcast_ne_any_def
  by (induction a b rule: list_induct2) auto

lemma reorder_raise_unchanged: "reorder self order = (self', Some e) \<Longrightarrow> self' = self"
  by (auto simp: reorder_def split: option.splits sum.splits bool.splits)

lemma reorder_frame:
  "reorder self order = (self', r) \<Longrightarrow>
     GEV self' = GEV self \<and> labels self' = labels self \<and> current_fit self' = current_fit self
     \<and> n_clusters self' = n_clusters self \<and> info self' = info self"
  by (auto simp: reorder_def split: option.splits sum.splits bool.splits)

lemma perm_in_range:
  assumes "mset order = mset (arange k)" "i \<in> set order"
  shows "0 \<le> i \<and> i < int k"
proof -
  have "set order = set (arange k)" using assms(1) by (metis set_mset_mset)
  then show ?thesis using assms(2) by (auto simp: arange_def)
qed

lemma reorder_permutation:
  assumes fitted: "current_fit self \<noteq> Unfitted"
    and c: "cluster_centers self = Some c" "length c = n_clusters self"
    and p: "mset order = mset (arange (n_clusters self))"
  shows "reorder self order = (self\<lparr>cluster_centers := Some (map (\<lambda>i. c ! nat i) order)\<rparr>, None)"
proof -
  have len: "length (sort order) = length (arange (n_clusters self))"
    using p by (metis length_sort size_mset)
  have "sort order = arange (n_clusters self)" using p by (simp add: sort_eq_arange_iff)
  then have b: "broadcast_ne_any (sort order) (arange (n_clusters self)) = Inr False"
    using broadcast_same_len[OF len] by simp
  have "take_rows c order = Inr (map (\<lambda>i. c ! nat i) order)"
    using perm_in_range[OF p] c(2) by (intro take_rows_map) auto
  then show ?thesis using fitted c b by (simp add: reorder_def check_fit_def)
qed

lemma rows_permuted:
  assumes "mset order = mset (arange (length c))"
  shows "mset (map (\<lambda>i. c ! nat i) order) = mset c"
proof -
  have "mset (map (\<lambda>i. c ! nat i) order) = image_mset (\<lambda>i. c ! nat i) (mset (arange (length c)))"
    using assms by (metis mset_map)
  also have "\<dots> = mset (map (\<lambda>i. c ! nat i) (arange (length c)))" by simp
  also have "map (\<lambda>i. c ! nat i) (arange (length c)) = c"
    by (simp add: arange_def comp_def map_nth)
  finally show ?thesis .
qed

lemma reorder_two_or_more:
  assumes fitted: "current_fit self \<noteq> Unfitted"
    and c: "cluster_centers self = Some c" "length c = n_clusters self"
    and k: "2 \<le> n_clusters self"
  shows "snd (reorder self order) = None \<longleftrightarrow> mset order = mset (arange (n_clusters self))"
proof (cases "mset order = mset (arange (n_clusters self))")
  case True
  then show ?thesis using reorder_permutation[OF fitted c True] by simp
next
  case False
  let ?a = "sort order" and ?b = "arange (n_clusters self)"
  have ne: "?a \<noteq> ?b" using False by (simp add: sort_eq_arange_iff)
  have lb: "length ?b = n_clusters self" by (simp add: arange_def)
  have "broadcast_ne_any ?a ?b \<noteq> Inr False"
  proof (cases "length ?a = length ?b")
    case True
    then show ?thesis using broadcast_same_len[OF True] ne by simp
  next
    case nl: False
    show ?thesis
    proof (cases "length ?a = 1")
      case True
      have m0: "(0::int) \<in> set ?b" and m1: "(1::int) \<in> set ?b"
        using k by (auto simp: arange_def image_iff intro: bexI[of _ 0] bexI[of _ 1])
      have "\<exists>y \<in> set ?b. hd ?a \<noteq> y"
      proof (cases "hd ?a = 0")
        case True then show ?thesis using m1 by (intro bexI[of _ 1]) auto
      next
        case False then show ?thesis using m0 by (intro bexI[of _ 0]) auto
      qed
      then show ?thesis using True nl by (simp add: broadcast_ne_any_def list_ex_iff)
    next
      case False
      then show ?thesis using nl lb k by (simp add: broadcast_ne_any_def)
    qed
  qed
  then have "snd (reorder self order) \<noteq> None"
    using fitted by (auto simp: reorder_def check_fit_def split: sum.splits bool.splits option.splits)
  then show ?thesis using False by simp
qed

text \<open>
  C10. \<^verbatim>\<open>reorder\<close> is to raise exactly when the order is not a permutation of the cluster
  indices. With one cluster the comparison of the sorted order with \<^verbatim>\<open>arange(0, 1)\<close>
  broadcasts: the order \<open>[0, 0]\<close> is accepted and the centre matrix gets two rows.
\<close>

theorem reorder_accepts_repeated_index:
  "reorder km_single [0, 0] =
     (km_single\<lparr>cluster_centers := Some [[Fin (3 / 5), Fin (4 / 5)], [Fin (3 / 5), Fin (4 / 5)]]\<rparr>,
      None)"
  by (simp add: reorder_def km_single_def check_fit_def broadcast_ne_any_def arange_def Let_def)

section \<open>Properties of the restarts\<close>

lemma flt_irrefl [simp]: "\<not> flt a a"
  by (cases a) auto

lemma upt3: "[0..<3] = [0, 1, 2]"
  by (simp add: upt_rec)

lemma as_generator_seed [simp]: "as_generator rng (Seed s, k) = (new_state rng s, k)"
  by (simp add: as_generator_def)

lemma compute_maps_seed_world: "snd (compute_maps rng data K mi th (Seed s, k)) = (Seed s, k)"
  by (simp add: compute_maps_def advance_def split: sum.splits prod.splits)

lemma compute_maps_generator_world:
  "K \<le> ncols data \<Longrightarrow>
   snd (compute_maps rng data K mi th (Generator g, k)) = (Generator (snd (draw rng g (ncols data) K)), k)"
  by (simp add: compute_maps_def as_generator_def advance_def choice_def split: prod.splits)

lemma run_seed_world: "snd (run_mod_kmeans rng self data (Seed s, k)) = (Seed s, k)"
proof -
  obtain r w' where c:
    "compute_maps rng data (n_clusters self) (max_iter self) (tol self) (Seed s, k) = (r, w')"
    by (cases "compute_maps rng data (n_clusters self) (max_iter self) (tol self) (Seed s, k)")
  then have "w' = (Seed s, k)"
    using compute_maps_seed_world[of rng data "n_clusters self" "max_iter self" "tol self" s k]
    by simp
  then show ?thesis using c
    by (auto simp: run_mod_kmeans_def split: sum.splits)
qed

lemma restarts_seed_raise:
  assumes "fst (run_mod_kmeans rng self data (Seed s, k)) = Inl e"
  shows "restarts (Suc n) rng self data bg b (Seed s, k) = (Inl e, (Seed s, k))"
  using assms run_seed_world[of rng self data s k]
  by (cases "run_mod_kmeans rng self data (Seed s, k)") auto

lemma restarts_seed_keep:
  assumes "fst (run_mod_kmeans rng self data (Seed s, k)) = Inr (gev, m, sg)" "\<not> fgt gev bg"
  shows "restarts n rng self data bg b (Seed s, k) = (Inr (bg, b), (Seed s, k))"
proof (induction n)
  case 0
  show ?case by simp
next
  case (Suc n)
  then show ?case using assms run_seed_world[of rng self data s k]
    by (cases "run_mod_kmeans rng self data (Seed s, k)") auto
qed

lemma restarts_seed_once:
  "restarts (Suc n) rng self data bg b (Seed s, k) =
   restarts (Suc 0) rng self data bg b (Seed s, k)"
proof (cases "fst (run_mod_kmeans rng self data (Seed s, k))")
  case (Inl e)
  then show ?thesis by (simp only: restarts_seed_raise[OF Inl])
next
  case (Inr r)
  obtain gev m sg where r: "r = (gev, m, sg)" by (cases r)
  have run: "run_mod_kmeans rng self data (Seed s, k) = (Inr (gev, m, sg), (Seed s, k))"
    using Inr r run_seed_world[of rng self data s k]
    by (cases "run_mod_kmeans rng self data (Seed s, k)") auto
  have f: "fst (run_mod_kmeans rng self data (Seed s, k)) = Inr (gev, m, sg)"
    using run by simp
  show ?thesis
  proof (cases "fgt gev bg")
    case True
    have "\<not> fgt gev gev" by (simp add: fgt_def)
    from restarts_seed_keep[OF f this] show ?thesis using run True by simp
  next
    case False
    from restarts_seed_keep[OF f False] show ?thesis by simp
  qed
qed

lemma run_mod_kmeans_n_init [simp]:
  "run_mod_kmeans rng (self\<lparr>n_init := x\<rparr>) data w = run_mod_kmeans rng self data w"
  by (simp add: run_mod_kmeans_def)

lemma restarts_n_init [simp]:
  "restarts n rng (self\<lparr>n_init := x\<rparr>) data bg b w = restarts n rng self data bg b w"
  by (induction n arbitrary: bg b w) (auto split: prod.splits sum.splits)

text \<open>
  C8. Each restart is to draw its own initialisation from the shared seeded source. With
  an integer seed every call of \<^verbatim>\<open>_compute_maps\<close> builds \<^verbatim>\<open>RandomState(seed)\<close> anew, so
  every restart draws the same \<^verbatim>\<open>init_times\<close> and repeats the first run: a fit with any
  number of restarts returns what the fit with one restart returns.
\<close>

theorem seeded_restarts_repeat_one_run:
  "do_fit rng (self\<lparr>n_init := Suc n\<rparr>) data (Seed s, k) =
   do_fit rng (self\<lparr>n_init := 1\<rparr>) data (Seed s, k)"
  using restarts_seed_once[of n rng self data "Fin 0" None s k]
  by (simp add: do_fit_def)

lemma fold_update_state_length [simp]:
  "length (fold (update_state d a s) sts maps) = length maps"
  by (induction sts arbitrary: maps) (auto simp: update_state_def Let_def)

lemma kmeans_step_ok:
  assumes "maps \<noteq> []"
  shows "\<exists>maps' seg r. kmeans_step data K dss maps = Inr (maps', seg, r)
           \<and> length maps' = length maps"
  using assms by (simp add: kmeans_step_def Let_def argmax_axis0_def matmul_def)

lemma kmeans_loop_ok:
  "maps \<noteq> [] \<Longrightarrow> \<exists>maps' seg. kmeans_loop n data K th dss maps prev sg = Inr (maps', seg)
      \<and> length maps' = length maps"
proof (induction n arbitrary: maps prev sg)
  case 0
  then show ?case by simp
next
  case (Suc n)
  from kmeans_step_ok[OF Suc.prems, of data K dss] obtain maps' seg r where
    s: "kmeans_step data K dss maps = Inr (maps', seg, r)" "length maps' = length maps"
    by blast
  then have "maps' \<noteq> []" using Suc.prems by auto
  from Suc.IH[OF this, of r "Some seg"] show ?case using s by auto
qed

lemma compute_maps_from_ok:
  "init \<noteq> [] \<Longrightarrow> \<exists>maps seg. compute_maps_from init data K mi th = Inr (maps, seg)
      \<and> length maps = length init"
  using kmeans_loop_ok[of "map div_by_norm (map (col data) init)" mi data K th
      "fsum2 (map (map sq) data)" PInf None]
  by (simp add: compute_maps_from_def Let_def)

lemma run_mod_kmeans_ok:
  assumes "0 < n_clusters self" "n_clusters self \<le> ncols data"
    and "length (fst (draw rng (fst (as_generator rng w)) (ncols data) (n_clusters self)))
           = n_clusters self"
  shows "\<exists>maps seg w'. run_mod_kmeans rng self data w
           = (Inr (gev_of data maps seg, maps, seg), w')"
proof -
  obtain g k where g: "as_generator rng w = (g, k)" by (cases "as_generator rng w")
  obtain init g' where d: "draw rng g (ncols data) (n_clusters self) = (init, g')"
    by (cases "draw rng g (ncols data) (n_clusters self)")
  have "init \<noteq> []" using assms g d by auto
  from compute_maps_from_ok[OF this, of data "n_clusters self" "max_iter self" "tol self"]
  obtain maps seg where
    m: "compute_maps_from init data (n_clusters self) (max_iter self) (tol self) = Inr (maps, seg)"
      "length maps = length init" by blast
  have "maps \<noteq> []" using m \<open>init \<noteq> []\<close> by auto
  then show ?thesis using g d m assms(2)
    by (simp add: run_mod_kmeans_def compute_maps_def choice_def argmax_axis0_def matmul_def)
qed

lemma restarts_never_better:
  assumes "\<And>w. \<exists>gev maps seg w'.
     run_mod_kmeans rng self data w = (Inr (gev, maps, seg), w') \<and> \<not> fgt gev (Fin 0)"
  shows "\<exists>w'. restarts n rng self data (Fin 0) None w = (Inr (Fin 0, None), w')"
proof (induction n arbitrary: w)
  case 0
  show ?case by simp
next
  case (Suc n)
  from assms[of w] obtain gev maps seg w' where
    r: "run_mod_kmeans rng self data w = (Inr (gev, maps, seg), w')" "\<not> fgt gev (Fin 0)"
    by blast
  from Suc.IH[of w'] show ?case using r by simp
qed

lemma nan_products:
  "\<forall>x \<in> set xs. x = NaN \<Longrightarrow> nan_to_num0 (fsum (map2 fmul xs ys)) = Fin 0"
  by (cases xs; cases ys) (auto simp: fsum_def)

lemma toy_draw_length [simp]: "length (fst (draw toy_random g n k)) = k"
  by (simp add: toy_random_def)

lemma corr_dup: "corr_vectors dup_data B = [Fin 0, Fin 0, Fin 0]"
proof -
  have "center_unit (col dup_data t) = [NaN, NaN, NaN, NaN]" if "t < 3" for t
  proof -
    from that consider "t = 0" | "t = 1" | "t = 2" by linarith
    then show ?thesis
      by cases (simp_all add: dup_data_def col_def center_unit_def div_by_norm_def
        fmean_def fsum_def fsub_def of_py_int_def fnorm_def sq_def inf_of_sign_def)
  qed
  then have "nan_to_num0 (fsum (map2 fmul (center_unit (col dup_data t)) ys)) = Fin 0"
    if "t < 3" for t ys using that by (simp add: nan_products)
  moreover have "ncols dup_data = 3" by (simp add: ncols_def dup_data_def)
  ultimately show ?thesis by (simp add: corr_vectors_def upt3)
qed

lemma gev_dup: "gev_of dup_data maps seg = Fin 0"
  unfolding gev_of_def Let_def corr_dup
  by (simp add: dup_data_def fsum2_def fsum_def sq_def)

lemma dup_runs:
  "\<exists>gev maps seg w'. run_mod_kmeans toy_random km_dup dup_data w = (Inr (gev, maps, seg), w')
     \<and> \<not> fgt gev (Fin 0)"
proof -
  have "\<exists>maps seg w'. run_mod_kmeans toy_random km_dup dup_data w
          = (Inr (gev_of dup_data maps seg, maps, seg), w')"
    by (rule run_mod_kmeans_ok) (simp_all add: km_dup_def dup_data_def ncols_def)
  then show ?thesis by (auto simp: gev_dup fgt_def)
qed

text \<open>
  C2. The fit is to return the restart of highest GEV. \<^verbatim>\<open>best_gev\<close> starts at \<open>0\<close> and
  a run replaces the best one only when its GEV is greater: on a recording whose channels
  are copies of one signal every run has GEV \<open>0\<close>, \<^verbatim>\<open>best_maps\<close> is never bound and
  \<^verbatim>\<open>_do_fit\<close> ends in \<^verbatim>\<open>UnboundLocalError\<close> instead of returning a run.
\<close>

theorem fit_unbound_when_no_gev_positive:
  "fst (do_fit toy_random km_dup dup_data (Seed 42, 0)) = Inl UnboundLocalError"
proof -
  from restarts_never_better[of toy_random km_dup dup_data "n_init km_dup" "(Seed 42, 0)"]
    dup_runs
  obtain w' where "restarts (n_init km_dup) toy_random km_dup dup_data (Fin 0) None (Seed 42, 0)
      = (Inr (Fin 0, None), w')"
    by blast
  then show ?thesis by (simp add: do_fit_def)
qed

section \<open>Properties of the preconditions of \<^verbatim>\<open>fit\<close>\<close>

lemma sqrt_25 [simp]: "sqrt 25 = 5"
  using real_sqrt_abs[of 5] by simp

lemma fadd_NaN_right [simp]: "fadd a NaN = NaN"
  by (cases a) auto

lemma upt2: "[0..<2] = [0, 1]"
  by (simp add: upt_rec)

lemma one_channel_step:
  "kmeans_step one_channel (Suc 0) (Fin 5) [[Fin 1]] = Inr ([[Fin 1]], [0, 0], NaN)"
  by (simp add: kmeans_step_def one_channel_def ncols_def matmul_def upt2 dot_def col_def fsum_def
      argmax_axis0_def argmax_def update_state_def select_def div_by_norm_def fnorm_def sq_def
      fsub_def of_py_int_def inf_of_sign_def Let_def)

lemma one_channel_loop:
  "kmeans_loop (Suc n) one_channel (Suc 0) th (Fin 5) [[Fin 1]] prev sg = Inr ([[Fin 1]], Some [0, 0])"
proof (induction n arbitrary: prev sg)
  case 0
  show ?case by (simp add: one_channel_step fsub_def)
next
  case (Suc n)
  show ?case
    by (subst kmeans_loop.simps) (simp add: one_channel_step fsub_def Suc.IH del: kmeans_loop.simps)
qed

lemma one_channel_maps:
  "compute_maps toy_random one_channel 1 (Suc n) th (Seed 42, k) = (Inr [[Fin 1]], (Seed 42, k))"
proof -
  have d: "draw toy_random 42 2 (Suc 0) = ([0], 43)"
    by (simp add: toy_random_def)
  have n: "new_state toy_random 42 = 42" by (simp add: toy_random_def)
  have m: "compute_maps_from [0] one_channel (Suc 0) (Suc n) th = Inr ([[Fin 1]], Some [0, 0])"
    unfolding compute_maps_from_def Let_def
    using one_channel_loop[of n th PInf None]
    by (simp add: one_channel_def fsum2_def fsum_def sq_def col_def div_by_norm_def fnorm_def del: kmeans_loop.simps)
  have c: "ncols one_channel = 2" by (simp add: one_channel_def ncols_def)
  show ?thesis
    by (simp add: compute_maps_def choice_def c n d m advance_def)
qed

lemma corr_one_channel: "corr_vectors one_channel B = [Fin 0, Fin 0]"
proof -
  have "center_unit (col one_channel t) = [NaN]" if "t < 2" for t
  proof -
    from that consider "t = 0" | "t = 1" by linarith
    then show ?thesis
      by cases (simp_all add: one_channel_def col_def center_unit_def div_by_norm_def
        fmean_def fsum_def fsub_def of_py_int_def fnorm_def sq_def inf_of_sign_def)
  qed
  then have "nan_to_num0 (fsum (map2 fmul (center_unit (col one_channel t)) ys)) = Fin 0"
    if "t < 2" for t ys using that by (simp add: nan_products)
  moreover have "ncols one_channel = 2" by (simp add: ncols_def one_channel_def)
  ultimately show ?thesis by (simp add: corr_vectors_def upt2)
qed

lemma gev_one_channel: "gev_of one_channel maps seg = Fin 0"
  unfolding gev_of_def Let_def corr_one_channel
  by (simp add: one_channel_def fsum2_def fsum_def sq_def)

lemma one_channel_runs:
  "\<exists>gev maps seg w'. run_mod_kmeans toy_random km_one one_channel w = (Inr (gev, maps, seg), w')
     \<and> \<not> fgt gev (Fin 0)"
proof -
  have "\<exists>maps seg w'. run_mod_kmeans toy_random km_one one_channel w
          = (Inr (gev_of one_channel maps seg, maps, seg), w')"
    by (rule run_mod_kmeans_ok) (simp_all add: km_one_def one_channel_def ncols_def)
  then show ?thesis by (auto simp: gev_one_channel fgt_def)
qed

text \<open>
  C7, as stated: a recording with fewer than two channels is to make \<^verbatim>\<open>fit\<close> fail at
  once with a dimension error. Nothing checks the number of channels: on a one-channel
  recording \<^verbatim>\<open>_compute_maps\<close> runs its iterations and returns a map, and \<^verbatim>\<open>fit\<close> ends,
  after all the restarts, in the \<^verbatim>\<open>UnboundLocalError\<close> of \<^verbatim>\<open>_do_fit\<close>.
\<close>

theorem one_channel_no_dimension_error:
  "fst (compute_maps toy_random one_channel 1 300 (Fin (1 / 1000000)) (Seed 42, 0)) = Inr [[Fin 1]]
   \<and> snd (fst (fit toy_random km_one Raw [''Cz''] one_channel 0)) = Some UnboundLocalError"
proof -
  have "(300::nat) = Suc 299" by simp
  then have a: "fst (compute_maps toy_random one_channel 1 300 (Fin (1 / 1000000)) (Seed 42, 0)) = Inr [[Fin 1]]"
    using one_channel_maps[of 299 "Fin (1 / 1000000)" 0] by (simp del: One_nat_def)
  from restarts_never_better[of toy_random km_one one_channel "n_init km_one" "(Seed 42, 0)"]
    one_channel_runs
  obtain w' where "restarts (n_init km_one) toy_random km_one one_channel (Fin 0) None (Seed 42, 0)
      = (Inr (Fin 0, None), w')"
    by blast
  then have b: "snd (fst (fit toy_random km_one Raw [''Cz''] one_channel 0)) = Some UnboundLocalError"
    by (simp add: fit_def do_fit_def km_one_def split: prod.splits)
  show ?thesis using a b by simp
qed

text \<open>
  C7, amended: with at least one restart, \<^verbatim>\<open>fit\<close> on fewer samples than clusters raises
  the \<^verbatim>\<open>ValueError\<close> of \<^verbatim>\<open>RandomState.choice\<close> in the first restart and leaves the
  object as it was.
\<close>

theorem fit_too_few_samples:
  assumes "ncols data < n_clusters self" "0 < n_init self"
  shows "fst (fit rng self kind names data k) = (self, Some SampleLargerThanPopulation)"
proof -
  obtain n where n: "n_init self = Suc n" using assms(2) by (cases "n_init self") auto
  obtain g k' where g: "as_generator rng (random_state self, k) = (g, k')"
    by (cases "as_generator rng (random_state self, k)")
  have "compute_maps rng data (n_clusters self) (max_iter self) (tol self) (random_state self, k)
        = (Inl SampleLargerThanPopulation, (random_state self, k'))"
    using assms(1) g by (simp add: compute_maps_def choice_def)
  then have "run_mod_kmeans rng self data (random_state self, k)
        = (Inl SampleLargerThanPopulation, (random_state self, k'))"
    by (simp add: run_mod_kmeans_def)
  then show ?thesis using n by (simp add: fit_def do_fit_def)
qed

theorem fit_too_few_samples_witness:
  "ncols one_sample < n_clusters km_dup \<and> 0 < n_init km_dup
   \<and> fst (fit toy_random km_dup Raw [''Fz'', ''Cz''] one_sample 0) = (km_dup, Some SampleLargerThanPopulation)"
proof -
  have h1: "ncols one_sample < n_clusters km_dup" by (simp add: one_sample_def ncols_def km_dup_def)
  have h2: "0 < n_init km_dup" by (simp add: km_dup_def)
  show ?thesis using h1 h2 fit_too_few_samples[OF h1 h2, of toy_random Raw "[''Fz'', ''Cz'']" 0] by simp
qed


section \<open>Properties of the maps of a run\<close>

lemma fsum_Nil [simp]: "fsum [] = Fin 0"
  by (simp add: fsum_def)

lemma fsum_Cons [simp]: "fsum (x # xs) = fadd x (fsum xs)"
  by (simp add: fsum_def)

lemma fmul_NaN_right [simp]: "fmul a NaN = NaN"
  by (cases a) auto

lemma fdiv_NaN_right [simp]: "fdiv a NaN = NaN"
  by (cases a) auto

lemma fsum_map_Fin [simp]: "fsum (map Fin xs) = Fin (sum_list xs)"
  by (induction xs) auto

lemma sq_Fin [simp]: "sq (Fin x) = Fin (x * x)"
  by (simp add: sq_def)

lemma sq_NaN [simp]: "sq NaN = NaN"
  by (simp add: sq_def)

lemma fnorm_map_Fin: "fnorm (map Fin xs) = Fin (sqrt (\<Sum>x\<leftarrow>xs. x * x))"
proof -
  have "map sq (map Fin xs) = map Fin (map (\<lambda>x. x * x) xs)" by simp
  then have "fsum (map sq (map Fin xs)) = Fin (\<Sum>x\<leftarrow>xs. x * x)" by (simp only: fsum_map_Fin)
  moreover have "0 \<le> (\<Sum>x\<leftarrow>xs. x * x)" by (induction xs) auto
  ultimately show ?thesis by (simp add: fnorm_def)
qed

lemma sum_list_div: "(\<Sum>x\<leftarrow>xs. f x / (c::real)) = (\<Sum>x\<leftarrow>xs. f x) / c"
  by (induction xs) (simp_all add: add_divide_distrib)

lemma div_by_norm_finite:
  assumes "(\<Sum>x\<leftarrow>xs. x * x) \<noteq> (0::real)"
  shows "div_by_norm (map Fin xs) = map (\<lambda>x. Fin (x / sqrt (\<Sum>x\<leftarrow>xs. x * x))) xs"
    and "fnorm (div_by_norm (map Fin xs)) = Fin 1"
proof -
  let ?n2 = "\<Sum>x\<leftarrow>xs. x * x"
  have nn: "0 \<le> ?n2" by (induction xs) auto
  then have pos: "0 < ?n2" using assms by simp
  then have sp: "sqrt ?n2 \<noteq> 0" by simp
  show eq: "div_by_norm (map Fin xs) = map (\<lambda>x. Fin (x / sqrt ?n2)) xs"
    using sp by (simp add: div_by_norm_def fnorm_map_Fin)
  have eq': "map (\<lambda>x. Fin (x / sqrt ?n2)) xs = map Fin (map (\<lambda>x. x / sqrt ?n2) xs)"
    by simp
  have "(\<Sum>x\<leftarrow>map (\<lambda>x. x / sqrt ?n2) xs. x * x) = (\<Sum>x\<leftarrow>xs. (x * x) / ?n2)"
    using nn by (simp add: comp_def)
  also have "\<dots> = ?n2 / ?n2"
    by (rule sum_list_div)
  also have "\<dots> = 1" using pos by simp
  finally show "fnorm (div_by_norm (map Fin xs)) = Fin 1"
    unfolding eq eq' fnorm_map_Fin by simp
qed

lemma div_by_norm_length [simp]: "length (div_by_norm v) = length v"
  by (simp add: div_by_norm_def)

lemma fold_update_state_above:
  "K \<le> j \<Longrightarrow> (fold (update_state d a sg) [0..<K] maps) ! j = maps ! j"
  by (induction K) (auto simp: update_state_def Let_def)

lemma fold_update_state_nth:
  "s < K \<Longrightarrow> K \<le> length maps \<Longrightarrow>
   (fold (update_state d a sg) [0..<K] maps) ! s = (update_state d a sg s maps) ! s"
proof (induction K)
  case 0 then show ?case by simp
next
  case (Suc K)
  let ?m = "fold (update_state d a sg) [0..<K] maps"
  have f: "fold (update_state d a sg) [0..<Suc K] maps = update_state d a sg K ?m" by simp
  show ?case
  proof (cases "s = K")
    case True
    have "?m ! K = maps ! K" by (rule fold_update_state_above) simp
    then show ?thesis using Suc.prems True
      unfolding f by (simp add: update_state_def Let_def)
  next
    case False
    then have "s < K" using Suc.prems by simp
    then have "?m ! s = (update_state d a sg s maps) ! s" using Suc by simp
    moreover have "(update_state d a sg K ?m) ! s = ?m ! s"
      using False by (simp add: update_state_def Let_def)
    ultimately show ?thesis unfolding f by simp
  qed
qed

lemma no_member_filter: "filter id (map (\<lambda>l. l = s) seg) = [] \<longleftrightarrow> s \<notin> set seg"
  by (auto simp: filter_empty_conv)

lemma col_length [simp]: "length (col m t) = length m"
  by (simp add: col_def)

lemma map_const_replicate: "map (\<lambda>x. c) xs = replicate (length xs) c"
  by (induction xs) auto

lemma matmul_row:
  "s < length maps \<Longrightarrow> matmul maps data ! s = map (\<lambda>t. dot (maps ! s) (col data t)) [0..<ncols data]"
  by (simp add: matmul_def)

lemma argmax_from_props:
  "bi < i \<Longrightarrow> i = length pre \<Longrightarrow> (pre @ ys) ! bi = bv \<Longrightarrow>
   argmax_from bi bv i ys < length (pre @ ys) \<and>
   (bv = NaN \<or> NaN \<in> set ys \<longrightarrow> (pre @ ys) ! argmax_from bi bv i ys = NaN)"
proof (induction ys arbitrary: bi bv i pre)
  case Nil
  then show ?case by simp
next
  case (Cons y ys)
  have app: "pre @ y # ys = (pre @ [y]) @ ys" by simp
  show ?case
  proof (cases "bv \<noteq> NaN \<and> (y = NaN \<or> flt bv y)")
    case True
    have "argmax_from i y (Suc i) ys < length ((pre @ [y]) @ ys) \<and>
      (y = NaN \<or> NaN \<in> set ys \<longrightarrow> ((pre @ [y]) @ ys) ! argmax_from i y (Suc i) ys = NaN)"
      using Cons.prems by (intro Cons.IH) (auto simp: nth_append)
    then show ?thesis using True unfolding app by auto
  next
    case False
    have "argmax_from bi bv (Suc i) ys < length ((pre @ [y]) @ ys) \<and>
      (bv = NaN \<or> NaN \<in> set ys \<longrightarrow> ((pre @ [y]) @ ys) ! argmax_from bi bv (Suc i) ys = NaN)"
      using Cons.prems by (intro Cons.IH) (auto simp: nth_append)
    moreover have "y = NaN \<Longrightarrow> bv = NaN" using False by auto
    ultimately show ?thesis using False unfolding app by auto
  qed
qed

lemma argmax_less: "xs \<noteq> [] \<Longrightarrow> argmax xs < length xs"
proof (cases xs)
  case Nil
  then show "xs \<noteq> [] \<Longrightarrow> ?thesis" by simp
next
  case (Cons x ys)
  from argmax_from_props[of 0 1 "[x]" ys x] show ?thesis by (simp add: Cons argmax_def)
qed

section \<open>Properties of the centres after \<^verbatim>\<open>fit\<close>\<close>

lemma nan_products_right:
  "\<forall>y \<in> set ys. y = NaN \<Longrightarrow> nan_to_num0 (fsum (map2 fmul xs ys)) = Fin 0"
  by (cases xs; cases ys) auto

lemma col_transpose_rows:
  assumes "t < length rows" "length (rows ! t) = n"
  shows "col (transpose_rows n rows) t = rows ! t"
proof -
  have "col (transpose_rows n rows) t = map (\<lambda>c. rows ! t ! c) [0..<n]"
    using assms(1) by (simp add: col_def transpose_rows_def)
  also have "\<dots> = rows ! t" using assms(2) map_nth[of "rows ! t"] by simp
  finally show ?thesis .
qed

lemma sqrt_16 [simp]: "sqrt 16 = 4"
  using real_sqrt_abs[of 4] by simp

lemma ortho_step:
  "kmeans_step ortho_data 2 (Fin 8) ortho_maps = Inr (ortho_maps, [0, 1], Fin 0)"
  by (simp add: kmeans_step_def ortho_data_def ortho_maps_def ncols_def matmul_def upt2 dot_def
      col_def argmax_axis0_def argmax_def update_state_def select_def div_by_norm_def fnorm_def
      fsub_def of_py_int_def Let_def)

lemma ortho_loop_zero:
  "kmeans_loop n ortho_data 2 (Fin th) (Fin 8) ortho_maps (Fin 0) (Some [0, 1])
     = Inr (ortho_maps, Some [0, 1])"
  by (induction n) (simp_all add: ortho_step fsub_def)

lemma ortho_loop:
  "kmeans_loop (Suc n) ortho_data 2 (Fin th) (Fin 8) ortho_maps PInf None
     = Inr (ortho_maps, Some [0, 1])"
  using ortho_loop_zero[of n th] by (simp add: ortho_step fsub_def)

lemma ortho_compute:
  "compute_maps_from [0, 1] ortho_data 2 (Suc n) (Fin th) = Inr (ortho_maps, Some [0, 1])"
proof -
  have "map div_by_norm (map (col ortho_data) [0, 1]) = ortho_maps"
    by (simp add: ortho_data_def ortho_maps_def col_def div_by_norm_def fnorm_def)
  moreover have "fsum2 (map (map sq) ortho_data) = Fin 8"
    by (simp add: ortho_data_def fsum2_def)
  ultimately show ?thesis
    using ortho_loop[of n th] by (simp add: compute_maps_from_def Let_def del: kmeans_loop.simps)
qed

lemma ortho_gev: "gev_of ortho_data ortho_maps [0, 1] = Fin 1"
  by (simp add: gev_of_def corr_vectors_def ortho_data_def ortho_maps_def ncols_def upt2
      transpose_rows_def col_def center_unit_def div_by_norm_def fnorm_def fmean_def fsub_def
      of_py_int_def fsum2_def upt_rec[of 0 4] upt_rec[of 1 4] upt_rec[of 2 4] upt_rec[of 3 4] Let_def)

lemma toy_valid: "valid_random toy_random"
  by (simp add: valid_random_def toy_random_def)

lemma ortho_run:
  "run_mod_kmeans toy_random km_ortho ortho_data (Seed 42, k)
     = (Inr (Fin 1, ortho_maps, [0, 1]), (Seed 42, k))"
proof -
  have d: "draw toy_random 42 2 2 = ([0, 1], 43)"
    by (simp add: toy_random_def upt2)
  have n: "new_state toy_random 42 = 42" by (simp add: toy_random_def)
  have c: "ncols ortho_data = 2" by (simp add: ortho_data_def ncols_def)
  have m: "compute_maps_from [0, 1] ortho_data 2 300 (Fin (1 / 1000000))
      = Inr (ortho_maps, Some [0, 1])"
    using ortho_compute[of 299 "1 / 1000000"] by simp
  have cm: "compute_maps toy_random ortho_data 2 300 (Fin (1 / 1000000)) (Seed 42, k)
      = (Inr ortho_maps, (Seed 42, k))"
    using m by (simp add: compute_maps_def choice_def c n d advance_def)
  have a: "argmax_axis0 2 (map (map fabs) (matmul ortho_maps ortho_data)) = Inr [0, 1]"
    by (simp add: argmax_axis0_def matmul_def ortho_maps_def ortho_data_def ncols_def upt2
        dot_def col_def argmax_def)
  show ?thesis
    using ortho_gev by (simp add: run_mod_kmeans_def km_ortho_def cm c a)
qed

lemma ortho_fit:
  "fit toy_random km_ortho Raw [''Fp1'', ''Fp2'', ''O1'', ''O2''] ortho_data 0
     = ((km_ortho\<lparr>cluster_centers := Some ortho_maps, GEV := Some (Fin 1),
           info := Some [''Fp1'', ''Fp2'', ''O1'', ''O2''], current_fit := Raw\<rparr>, None), 0)"
proof -
  have "restarts (Suc 99) toy_random km_ortho ortho_data (Fin 0) None (Seed 42, 0)
      = restarts (Suc 0) toy_random km_ortho ortho_data (Fin 0) None (Seed 42, 0)"
    by (rule restarts_seed_once)
  also have "\<dots> = (Inr (Fin 1, Some (ortho_maps, [0, 1])), (Seed 42, 0))"
    by (simp add: ortho_run fgt_def)
  finally have "do_fit toy_random km_ortho ortho_data (Seed 42, 0)
      = (Inr (ortho_maps, Fin 1, [0, 1]), (Seed 42, 0))"
    by (simp add: do_fit_def km_ortho_def)
  then show ?thesis by (simp add: fit_def km_ortho_def)
qed

lemma fit_n_jobs_one: "fit_n_jobs rng self kind names data 1 k = fit rng self kind names data k"
  by (simp add: fit_n_jobs_def fit_def do_fit_n_jobs_def)

lemma zero_or_normalized_length:
  "zero_or_normalized C K maps seg \<Longrightarrow> s < K \<Longrightarrow> length (maps ! s) = C"
  by (auto simp: zero_or_normalized_def normalized_row_def split: if_splits)

lemma kmeans_step_shape:
  assumes K: "length maps = K"
    and rows: "\<And>s. s < K \<Longrightarrow> length (maps ! s) = length data"
    and step: "kmeans_step data K dss maps = Inr (maps', seg, res)"
  shows "zero_or_normalized (length data) K maps' (Some seg)"
proof -
  let ?act = "matmul maps data"
  have m': "maps' = fold (update_state data ?act seg) [0..<K] maps"
    using step by (auto simp: kmeans_step_def Let_def split: sum.splits)
  have len: "length maps' = K" using m' K by simp
  have row: "if s \<notin> set seg then maps' ! s = replicate (length data) (Fin 0)
             else normalized_row (length data) (maps' ! s)"
    if s: "s < K" for s
  proof -
    let ?idx = "map (\<lambda>l. l = s) seg"
    let ?v = "map (\<lambda>row. dot (select ?idx row) (select ?idx (?act ! s))) data"
    have eq: "maps' ! s = (update_state data ?act seg s maps) ! s"
      unfolding m' using s K by (intro fold_update_state_nth) auto
    show ?thesis
    proof (cases "s \<in> set seg")
      case False
      then have "maps' ! s = map (\<lambda>x. Fin 0) (maps ! s)"
        using eq s K by (simp add: update_state_def Let_def no_member_filter)
      then show ?thesis using False rows[OF s] by (simp add: map_const_replicate)
    next
      case True
      then have "maps' ! s = div_by_norm ?v"
        using eq s K by (simp add: update_state_def Let_def no_member_filter)
      moreover have "length ?v = length data" by simp
      ultimately have "normalized_row (length data) (maps' ! s)"
        unfolding normalized_row_def by blast
      then show ?thesis using True by simp
    qed
  qed
  show ?thesis using len row by (simp add: zero_or_normalized_def)
qed

lemma kmeans_loop_shape:
  "zero_or_normalized (length data) K maps sg \<Longrightarrow>
     kmeans_loop n data K th dss maps prev sg = Inr (m', sg') \<Longrightarrow>
     zero_or_normalized (length data) K m' sg'"
proof (induction n arbitrary: maps prev sg)
  case 0
  then show ?case by simp
next
  case (Suc n)
  have l: "length maps = K" using Suc.prems(1) by (simp add: zero_or_normalized_def)
  from Suc.prems(2) obtain m1 s1 r1 where
    st: "kmeans_step data K dss maps = Inr (m1, s1, r1)"
    by (cases "kmeans_step data K dss maps") auto
  have p: "zero_or_normalized (length data) K m1 (Some s1)"
    using zero_or_normalized_length[OF Suc.prems(1)]
    by (intro kmeans_step_shape[OF l _ st]) auto
  show ?case
  proof (cases "flt (fsub prev r1) (fmul th r1)")
    case True
    then show ?thesis using Suc.prems(2) st p by simp
  next
    case False
    then have "kmeans_loop n data K th dss m1 r1 (Some s1) = Inr (m', sg')"
      using Suc.prems(2) st by simp
    from Suc.IH[OF p this] show ?thesis .
  qed
qed

lemma compute_maps_from_shape:
  assumes K: "length init = K"
    and run: "compute_maps_from init data K mi th = Inr (maps, seg)"
  shows "zero_or_normalized (length data) K maps seg"
proof -
  let ?m0 = "map div_by_norm (map (col data) init)"
  have "normalized_row (length data) (div_by_norm (col data t))" for t
    unfolding normalized_row_def by (intro exI[of _ "col data t"]) simp
  then have "zero_or_normalized (length data) K ?m0 None"
    using K by (simp add: zero_or_normalized_def)
  moreover have "kmeans_loop mi data K th (fsum2 (map (map sq) data)) ?m0 PInf None = Inr (maps, seg)"
    using run by (simp add: compute_maps_from_def Let_def)
  ultimately show ?thesis by (rule kmeans_loop_shape)
qed

lemma run_mod_kmeans_shape:
  assumes v: "valid_random rng"
    and run: "run_mod_kmeans rng self data w = (Inr (gev, maps, seg), w')"
  shows "run_result data (n_clusters self) (max_iter self) (tol self) maps"
proof -
  let ?K = "n_clusters self" and ?T = "ncols data"
  obtain g k where g: "as_generator rng w = (g, k)" by (cases "as_generator rng w")
  have kt: "?K \<le> ?T"
    using run g by (auto simp: run_mod_kmeans_def compute_maps_def choice_def split: if_splits)
  obtain init g' where d: "draw rng g ?T ?K = (init, g')" by (cases "draw rng g ?T ?K")
  have "length (fst (draw rng g ?T ?K)) = ?K \<and> (\<forall>t \<in> set (fst (draw rng g ?T ?K)). t < ?T)"
    using v kt unfolding valid_random_def by blast
  then have li: "length init = ?K" using d by auto
  from run g d kt have
    c0: "map_sum id fst (compute_maps_from init data ?K (max_iter self) (tol self)) = Inr maps"
    by (auto simp: run_mod_kmeans_def compute_maps_def choice_def split: sum.splits)
  from c0 obtain sg where
    c: "compute_maps_from init data ?K (max_iter self) (tol self) = Inr (maps, sg)"
    by (cases "compute_maps_from init data ?K (max_iter self) (tol self)") auto
  from compute_maps_from_shape[OF li c] c show ?thesis unfolding run_result_def by blast
qed

lemma restarts_shape:
  assumes v: "valid_random rng"
  shows "(\<And>m sg. b = Some (m, sg) \<Longrightarrow> run_result data (n_clusters self) (max_iter self) (tol self) m) \<Longrightarrow>
    restarts n rng self data bg b w = (Inr (bg', Some (maps, seg)), w') \<Longrightarrow>
    run_result data (n_clusters self) (max_iter self) (tol self) maps"
proof (induction n arbitrary: bg b w)
  case 0
  then show ?case by simp
next
  case (Suc n)
  obtain r w1 where r: "run_mod_kmeans rng self data w = (r, w1)"
    by (cases "run_mod_kmeans rng self data w")
  show ?case
  proof (cases r)
    case (Inl e)
    then show ?thesis using Suc.prems(2) r by simp
  next
    case (Inr x)
    obtain gev m1 s1 where x: "x = (gev, m1, s1)" by (cases x)
    have run: "run_mod_kmeans rng self data w = (Inr (gev, m1, s1), w1)" using r Inr x by simp
    show ?thesis
    proof (cases "fgt gev bg")
      case True
      have g: "run_result data (n_clusters self) (max_iter self) (tol self) m1"
        by (rule run_mod_kmeans_shape[OF v run])
      have "restarts n rng self data gev (Some (m1, s1)) w1 = (Inr (bg', Some (maps, seg)), w')"
        using Suc.prems(2) run True by simp
      then show ?thesis using g by (intro Suc.IH[of "Some (m1, s1)" gev w1]) auto
    next
      case False
      have "restarts n rng self data bg b w1 = (Inr (bg', Some (maps, seg)), w')"
        using Suc.prems(2) run False by simp
      then show ?thesis using Suc.prems(1) by (intro Suc.IH[of b bg w1]) auto
    qed
  qed
qed

lemma parallel_runs_shape:
  assumes v: "valid_random rng"
  shows "parallel_runs n rng self data rs k = (Inr runs, k') \<Longrightarrow> (gev, maps, seg) \<in> set runs \<Longrightarrow>
    run_result data (n_clusters self) (max_iter self) (tol self) maps"
proof (induction n arbitrary: k runs)
  case 0
  then show ?case by simp
next
  case (Suc n)
  obtain r w1 where r: "run_mod_kmeans rng self data (rs, k) = (r, w1)"
    by (cases "run_mod_kmeans rng self data (rs, k)")
  show ?case
  proof (cases r)
    case (Inl e)
    then show ?thesis using Suc.prems(1) r by simp
  next
    case (Inr x)
    obtain g1 m1 s1 where x: "x = (g1, m1, s1)" by (cases x)
    have run: "run_mod_kmeans rng self data (rs, k) = (Inr (g1, m1, s1), w1)" using r Inr x by simp
    from Suc.prems(1) run obtain rest where
      p: "parallel_runs n rng self data rs (snd w1) = (Inr rest, k')" and rr: "runs = (g1, m1, s1) # rest"
      by (auto split: prod.splits sum.splits)
    show ?thesis
    proof (cases "(gev, maps, seg) = (g1, m1, s1)")
      case True
      then show ?thesis using run_mod_kmeans_shape[OF v run] by simp
    next
      case False
      then have "(gev, maps, seg) \<in> set rest" using Suc.prems(2) rr by auto
      from Suc.IH[OF p this] show ?thesis .
    qed
  qed
qed

lemma argmax_object_from_less:
  "bi < i \<Longrightarrow> argmax_object_from bi bv i ys < i + length ys"
proof (induction ys arbitrary: bi bv i)
  case Nil
  then show ?case by simp
next
  case (Cons y ys)
  have "argmax_object_from i y (Suc i) ys < Suc i + length ys" by (rule Cons.IH) simp
  moreover have "argmax_object_from bi bv (Suc i) ys < Suc i + length ys"
    using Cons.prems by (intro Cons.IH) simp
  ultimately show ?case by simp
qed

lemma argmax_object_less: "xs \<noteq> [] \<Longrightarrow> argmax_object xs < length xs"
  using argmax_object_from_less[of 0 1 _ "tl xs"] by (cases xs) (auto simp: argmax_object_def)


lemma argmax_object_all_equal:
  "\<forall>y \<in> set ys. \<not> fgt y bv \<Longrightarrow> argmax_object_from bi bv i ys = bi"
  by (induction ys arbitrary: i) auto

lemma parallel_runs_seed:
  assumes "run_mod_kmeans rng self data (Seed s, k) = (Inr run, w')"
  shows "parallel_runs n rng self data (Seed s) k = (Inr (replicate n run), k)"
proof (induction n)
  case 0
  show ?case by simp
next
  case (Suc n)
  have "snd w' = k" using run_seed_world[of rng self data s k] assms by simp
  then show ?case using Suc assms by simp
qed

text \<open>
  C6, amended: when \<^verbatim>\<open>fit\<close> returns, for \<^verbatim>\<open>n_jobs = 1\<close> or not, the centre matrix
  it stores is the result of one call of \<^verbatim>\<open>_compute_maps\<close>; it has \<^verbatim>\<open>n_clusters\<close> rows,
  the row of each cluster that received no sample in the last iteration of that call is
  the zero vector, and every other row is a vector of one entry per channel divided by
  its own norm. Such a row has norm one when that norm is finite and not zero (lemma
  \<open>div_by_norm_finite\<close>), and is a row of \<open>NaN\<close> when it is zero.
\<close>

theorem fit_centers_zero_or_normalized:
  assumes "valid_random rng"
    and "fit_n_jobs rng self kind names data n_jobs k = ((self', None), k')"
  shows "\<exists>centers init seg. cluster_centers self' = Some centers
      \<and> length centers = n_clusters self
      \<and> compute_maps_from init data (n_clusters self) (max_iter self) (tol self)
            = Inr (centers, seg)
      \<and> (\<forall>s < n_clusters self.
            if cluster_empty seg s then centers ! s = replicate (length data) (Fin 0)
            else (\<exists>v. length v = length data \<and> centers ! s = div_by_norm v))"
proof -
  let ?w = "(random_state self, k)"
  obtain r w' where d: "do_fit_n_jobs rng self data n_jobs ?w = (r, w')"
    by (cases "do_fit_n_jobs rng self data n_jobs ?w")
  from assms(2) d obtain centers gev seg where
    r: "r = Inr (centers, gev, seg)" and c: "cluster_centers self' = Some centers"
    by (cases r; cases w') (auto simp: fit_n_jobs_def split: prod.splits)
  have "run_result data (n_clusters self) (max_iter self) (tol self) centers"
  proof (cases "n_jobs = 1")
    case True
    with d r obtain w'' where
      "restarts (n_init self) rng self data (Fin 0) None ?w = (Inr (gev, Some (centers, seg)), w'')"
      by (auto simp: do_fit_n_jobs_def do_fit_def split: prod.splits sum.splits option.splits)
    then show ?thesis
      using restarts_shape[OF assms(1), of None data self "n_init self" "Fin 0" ?w gev centers seg w'']
      by simp
  next
    case False
    with d r obtain runs k1 where
      p: "parallel_runs (n_init self) rng self data (random_state self) k = (Inr runs, k1)"
      and ne: "runs \<noteq> []"
      and b: "runs ! argmax_object (map fst runs) = (gev, centers, seg)"
      by (auto simp: do_fit_n_jobs_def split: prod.splits sum.splits if_splits)
    have "argmax_object (map fst runs) < length runs"
      using argmax_object_less[of "map fst runs"] ne by simp
    then have "(gev, centers, seg) \<in> set runs" using b nth_mem by metis
    from parallel_runs_shape[OF assms(1) p this] show ?thesis .
  qed
  then show ?thesis using c unfolding run_result_def zero_or_normalized_def normalized_row_def
    by blast
qed


lemma zero_sample_step:
  "kmeans_step zero_sample 2 (Fin 25) [[Fin (3 / 5), Fin (4 / 5)], [NaN, NaN]]
     = Inr (nan_center, [1, 1], NaN)"
  by (simp add: kmeans_step_def zero_sample_def nan_center_def ncols_def matmul_def upt2 dot_def
      col_def argmax_axis0_def argmax_def update_state_def select_def div_by_norm_def fnorm_def
      fsub_def of_py_int_def Let_def)

lemma nan_center_step:
  "kmeans_step zero_sample 2 (Fin 25) nan_center = Inr (nan_center, [1, 1], NaN)"
  by (simp add: kmeans_step_def zero_sample_def nan_center_def ncols_def matmul_def upt2 dot_def
      col_def argmax_axis0_def argmax_def update_state_def select_def div_by_norm_def fnorm_def
      fsub_def of_py_int_def Let_def)

lemma nan_center_loop:
  "kmeans_loop n zero_sample 2 th (Fin 25) nan_center NaN (Some [1, 1])
     = Inr (nan_center, Some [1, 1])"
  by (induction n) (simp_all add: nan_center_step fsub_def)

lemma zero_sample_compute:
  "compute_maps_from [0, 1] zero_sample 2 (Suc n) th = Inr (nan_center, Some [1, 1])"
proof -
  have "map div_by_norm (map (col zero_sample) [0, 1]) = [[Fin (3 / 5), Fin (4 / 5)], [NaN, NaN]]"
    by (simp add: zero_sample_def col_def div_by_norm_def fnorm_def inf_of_sign_def)
  moreover have "fsum2 (map (map sq) zero_sample) = Fin 25"
    by (simp add: zero_sample_def fsum2_def)
  ultimately show ?thesis
    using nan_center_loop[of n th]
    by (simp add: compute_maps_from_def Let_def zero_sample_step fsub_def)
qed

lemma zero_sample_gev: "gev_of zero_sample nan_center [1, 1] = Fin 0"
proof -
  let ?B = "transpose_rows (length zero_sample) (map (\<lambda>l. nan_center ! l) [1, 1])"
  have "col ?B t = [NaN, NaN]" if "t < 2" for t
    using that
    by (auto simp: transpose_rows_def col_def upt2 less_Suc_eq numeral_2_eq_2 nan_center_def
        zero_sample_def)
  moreover have "center_unit [NaN, NaN] = [NaN, NaN]"
    by (simp add: center_unit_def div_by_norm_def fsub_def)
  ultimately have "nan_to_num0 (fsum (map2 fmul xs (center_unit (col ?B t)))) = Fin 0"
    if "t < 2" for t xs using that by (simp add: nan_products_right)
  then have c: "corr_vectors zero_sample ?B = [Fin 0, Fin 0]"
    by (simp add: corr_vectors_def zero_sample_def ncols_def upt2)
  show ?thesis
    unfolding gev_of_def Let_def c by (simp add: zero_sample_def fsum2_def)
qed

lemma zero_sample_run:
  "run_mod_kmeans toy_random km_ortho zero_sample (Seed 42, k)
     = (Inr (Fin 0, nan_center, [1, 1]), (Seed 42, k))"
proof -
  have d: "draw toy_random 42 2 2 = ([0, 1], 43)"
    by (simp add: toy_random_def upt2)
  have n: "new_state toy_random 42 = 42" by (simp add: toy_random_def)
  have c: "ncols zero_sample = 2" by (simp add: zero_sample_def ncols_def)
  have m: "compute_maps_from [0, 1] zero_sample 2 300 (Fin (1 / 1000000))
      = Inr (nan_center, Some [1, 1])"
    using zero_sample_compute[of 299 "Fin (1 / 1000000)"] by simp
  have cm: "compute_maps toy_random zero_sample 2 300 (Fin (1 / 1000000)) (Seed 42, k)
      = (Inr nan_center, (Seed 42, k))"
    using m by (simp add: compute_maps_def choice_def c n d advance_def)
  have a: "argmax_axis0 2 (map (map fabs) (matmul nan_center zero_sample)) = Inr [1, 1]"
    by (simp add: argmax_axis0_def matmul_def nan_center_def zero_sample_def ncols_def upt2
        dot_def col_def argmax_def)
  show ?thesis
    using zero_sample_gev by (simp add: run_mod_kmeans_def km_ortho_def cm c a)
qed

lemma zero_sample_fit:
  "fit_n_jobs toy_random km_ortho Raw [''Fz'', ''Cz''] zero_sample 2 0
     = ((km_ortho\<lparr>cluster_centers := Some nan_center, GEV := Some (Fin 0),
           info := Some [''Fz'', ''Cz''], current_fit := Raw\<rparr>, None), 0)"
proof -
  let ?run = "(Fin 0, nan_center, [1::nat, 1])"
  have p: "parallel_runs 100 toy_random km_ortho zero_sample (Seed 42) 0
      = (Inr (replicate 100 ?run), 0)"
    by (rule parallel_runs_seed[OF zero_sample_run])
  have r: "replicate 100 ?run = ?run # replicate 99 ?run"
    using replicate_Suc[of 99 ?run] by simp
  have "argmax_object_from 0 (Fin 0) 1 (map fst (replicate 99 ?run)) = 0"
    by (rule argmax_object_all_equal) (simp add: fgt_def)
  then have a: "argmax_object (map fst (?run # replicate 99 ?run)) = 0"
    by (simp add: argmax_object_def)
  have p': "parallel_runs 100 toy_random km_ortho zero_sample (Seed 42) 0
      = (Inr (?run # replicate 99 ?run), 0)"
    using p r by simp
  have "do_fit_n_jobs toy_random km_ortho zero_sample 2 (Seed 42, 0)
      = (Inr (nan_center, Fin 0, [1, 1]), (Seed 42, 0))"
    unfolding do_fit_n_jobs_def using p' a by (simp add: km_ortho_def)
  then show ?thesis by (simp add: fit_n_jobs_def km_ortho_def)
qed

text \<open>
  C6, as stated: each stored row is to have norm one unless its cluster was empty in the
  last iteration. On a recording with a zero sample and with \<^verbatim>\<open>n_jobs = 2\<close>, \<^verbatim>\<open>fit\<close>
  returns and stores a row of \<open>NaN\<close> for the second cluster, to which the last iteration
  assigned both samples.
\<close>

theorem parallel_fit_keeps_nan_center:
  "fit_n_jobs toy_random km_ortho Raw [''Fz'', ''Cz''] zero_sample 2 0
     = ((km_ortho\<lparr>cluster_centers := Some [[Fin 0, Fin 0], [NaN, NaN]], GEV := Some (Fin 0),
           info := Some [''Fz'', ''Cz''], current_fit := Raw\<rparr>, None), 0)
   \<and> compute_maps_from [0, 1] zero_sample (n_clusters km_ortho) (max_iter km_ortho) (tol km_ortho)
       = Inr ([[Fin 0, Fin 0], [NaN, NaN]], Some [1, 1])
   \<and> \<not> cluster_empty (Some [1, 1]) 1
   \<and> fnorm [NaN, NaN] = NaN"
  using zero_sample_fit zero_sample_compute[of 299 "Fin (1 / 1000000)"]
  by (simp add: nan_center_def km_ortho_def fnorm_def)

lemma ortho_fit_n_jobs:
  "fit_n_jobs toy_random km_ortho Raw [''Fp1'', ''Fp2'', ''O1'', ''O2''] ortho_data 1 0
     = ((km_ortho\<lparr>cluster_centers := Some ortho_maps, GEV := Some (Fin 1),
           info := Some [''Fp1'', ''Fp2'', ''O1'', ''O2''], current_fit := Raw\<rparr>, None), 0)"
  using ortho_fit by (simp only: fit_n_jobs_one)

text \<open>
  The amended statement on the two orthogonal samples with \<^verbatim>\<open>n_jobs = 1\<close>, and on the
  recording with a zero sample with \<^verbatim>\<open>n_jobs = 2\<close>, where the first cluster is empty.
\<close>

theorem fit_centers_zero_or_normalized_witness:
  "valid_random toy_random
   \<and> fit_n_jobs toy_random km_ortho Raw [''Fp1'', ''Fp2'', ''O1'', ''O2''] ortho_data 1 0
     = ((km_ortho\<lparr>cluster_centers := Some ortho_maps, GEV := Some (Fin 1),
           info := Some [''Fp1'', ''Fp2'', ''O1'', ''O2''], current_fit := Raw\<rparr>, None), 0)
   \<and> (\<exists>init seg. length ortho_maps = n_clusters km_ortho
        \<and> compute_maps_from init ortho_data (n_clusters km_ortho) (max_iter km_ortho)
              (tol km_ortho) = Inr (ortho_maps, seg)
        \<and> (\<forall>s < n_clusters km_ortho.
              if cluster_empty seg s then ortho_maps ! s = replicate (length ortho_data) (Fin 0)
              else (\<exists>v. length v = length ortho_data \<and> ortho_maps ! s = div_by_norm v)))
   \<and> fit_n_jobs toy_random km_ortho Raw [''Fz'', ''Cz''] zero_sample 2 0
     = ((km_ortho\<lparr>cluster_centers := Some nan_center, GEV := Some (Fin 0),
           info := Some [''Fz'', ''Cz''], current_fit := Raw\<rparr>, None), 0)
   \<and> (\<exists>init seg. length nan_center = n_clusters km_ortho
        \<and> compute_maps_from init zero_sample (n_clusters km_ortho) (max_iter km_ortho)
              (tol km_ortho) = Inr (nan_center, seg)
        \<and> (\<forall>s < n_clusters km_ortho.
              if cluster_empty seg s then nan_center ! s = replicate (length zero_sample) (Fin 0)
              else (\<exists>v. length v = length zero_sample \<and> nan_center ! s = div_by_norm v)))"
  using fit_centers_zero_or_normalized[OF toy_valid ortho_fit_n_jobs]
    fit_centers_zero_or_normalized[OF toy_valid zero_sample_fit]
    toy_valid ortho_fit_n_jobs zero_sample_fit
  by simp

section \<open>Properties of the polarity of the samples\<close>

lemma fneg_fneg [simp]: "fneg (fneg x) = x"
  by (cases x) auto

lemma fsign_fneg [simp]: "fsign (fneg x) = - fsign x"
  by (cases x) auto

lemma inf_of_sign_minus [simp]: "inf_of_sign (- s) = fneg (inf_of_sign s)"
  by (simp add: inf_of_sign_def)

lemma fmul_fneg_left: "fmul (fneg x) y = fneg (fmul x y)"
  by (cases x; cases y) (auto simp: inf_of_sign_def)

lemma fmul_fneg_right: "fmul x (fneg y) = fneg (fmul x y)"
  by (cases x; cases y) (auto simp: inf_of_sign_def)

lemma fmul_flip: "fmul (flip_if p x) (flip_if q y) = flip_if (p \<noteq> q) (fmul x y)"
  by (simp add: flip_if_def fmul_fneg_left fmul_fneg_right)

lemma fadd_fneg: "fadd (fneg x) (fneg y) = fneg (fadd x y)"
  by (cases x; cases y) auto

lemma fsum_flip: "fsum (map (flip_if p) xs) = flip_if p (fsum xs)"
  by (induction xs) (auto simp: flip_if_def fadd_fneg)

lemma fdiv_fneg_left: "fdiv (fneg x) n = fneg (fdiv x n)"
  by (cases x; cases n) (auto simp: inf_of_sign_def)

lemma fdiv_flip: "fdiv (flip_if p x) n = flip_if p (fdiv x n)"
  by (simp add: flip_if_def fdiv_fneg_left)

lemma fabs_fneg [simp]: "fabs (fneg x) = fabs x"
  by (cases x) auto

lemma fabs_flip [simp]: "fabs (flip_if p x) = fabs x"
  by (simp add: flip_if_def)

lemma sq_flip [simp]: "sq (flip_if p x) = sq x"
  by (simp add: flip_if_def sq_def fmul_fneg_left fmul_fneg_right)

lemma fsub_flip: "fsub (flip_if p x) (flip_if p y) = flip_if p (fsub x y)"
  using fadd_fneg[of x "fneg y"] by (simp add: flip_if_def fsub_def)

lemma nan_to_num0_flip: "nan_to_num0 (flip_if p x) = flip_if p (nan_to_num0 x)"
  by (cases x) (auto simp: flip_if_def)

lemma map2_fmul_flip:
  "map2 fmul (map (flip_if p) v) (map (flip_if q) w) = map (flip_if (p \<noteq> q)) (map2 fmul v w)"
proof (induction v arbitrary: w)
  case Nil
  show ?case by simp
next
  case (Cons a v)
  then show ?case by (cases w) (simp_all add: fmul_flip)
qed

lemma dot_flip: "dot (map (flip_if p) v) (map (flip_if q) w) = flip_if (p \<noteq> q) (dot v w)"
  unfolding dot_def map2_fmul_flip by (rule fsum_flip)

lemma fnorm_flip [simp]: "fnorm (map (flip_if p) v) = fnorm v"
  by (simp add: fnorm_def comp_def)

lemma div_by_norm_flip: "div_by_norm (map (flip_if p) v) = map (flip_if p) (div_by_norm v)"
  by (simp add: div_by_norm_def fdiv_flip)

lemma fmean_flip: "fmean (map (flip_if p) v) = flip_if p (fmean v)"
  by (simp add: fmean_def fsum_flip fdiv_flip)

lemma center_unit_flip: "center_unit (map (flip_if p) v) = map (flip_if p) (center_unit v)"
  by (simp add: center_unit_def fmean_flip comp_def fsub_flip div_by_norm_flip[symmetric])

lemma select_map: "select idx (map g xs) = map g (select idx xs)"
proof (induction idx arbitrary: xs)
  case Nil then show ?case by (simp add: select_def)
next
  case (Cons i idx)
  then show ?case by (cases xs) (auto simp: select_def)
qed

lemma select_map2:
  "length r = length a \<Longrightarrow> map2 f (select idx r) (select idx a) = select idx (map2 f r a)"
proof (induction idx arbitrary: r a)
  case Nil then show ?case by (simp add: select_def)
next
  case (Cons i idx)
  then show ?case by (cases r; cases a) (auto simp: select_def)
qed

lemma flip_cols_length [simp]: "length (flip_cols E D) = length D"
  by (simp add: flip_cols_def)

lemma rect_row: "rect D \<Longrightarrow> r \<in> set D \<Longrightarrow> length r = ncols D"
  by (simp add: rect_def list_all_iff)

lemma ncols_flip_cols:
  assumes "rect D" "length E = ncols D"
  shows "ncols (flip_cols E D) = ncols D"
proof (cases D)
  case Nil
  then show ?thesis by (simp add: flip_cols_def)
next
  case (Cons r rs)
  then have "length r = ncols D" using assms(1) by (intro rect_row) auto
  then show ?thesis using assms(2) Cons by (simp add: flip_cols_def ncols_def)
qed

lemma col_flip_cols:
  assumes "rect D" "length E = ncols D" "t < ncols D"
  shows "col (flip_cols E D) t = map (flip_if (E ! t)) (col D t)"
proof -
  have "(map2 flip_if E r) ! t = flip_if (E ! t) (r ! t)" if "r \<in> set D" for r
    using rect_row[OF assms(1) that] assms(2,3) by simp
  then show ?thesis by (simp add: col_def flip_cols_def)
qed

lemma flip_rows_length [simp]: "length F = length m \<Longrightarrow> length (flip_rows F m) = length m"
  by (simp add: flip_rows_def)

lemma flip_rows_nth:
  "length F = length m \<Longrightarrow> s < length m \<Longrightarrow> flip_rows F m ! s = map (flip_if (F ! s)) (m ! s)"
  by (simp add: flip_rows_def)

lemma flip_rows_update:
  assumes "length F = length m"
  shows "(flip_rows F m)[s := map (flip_if (F ! s)) r] = flip_rows F (m[s := r])"
proof (rule nth_equalityI)
  show "length ((flip_rows F m)[s := map (flip_if (F ! s)) r]) = length (flip_rows F (m[s := r]))"
    using assms by simp
next
  fix i assume "i < length ((flip_rows F m)[s := map (flip_if (F ! s)) r])"
  then have i: "i < length m" using assms by simp
  show "(flip_rows F m)[s := map (flip_if (F ! s)) r] ! i = flip_rows F (m[s := r]) ! i"
    using i assms by (cases "i = s") (simp_all add: flip_rows_nth)
qed

lemma matmul_row_flip:
  assumes D: "rect D" "length E = ncols D" and F: "length F = length m" and s: "s < length m"
  shows "matmul (flip_rows F m) (flip_cols E D) ! s
           = map2 (\<lambda>e x. flip_if (F ! s \<noteq> e) x) E (matmul m D ! s)"
proof (rule nth_equalityI)
  show "length (matmul (flip_rows F m) (flip_cols E D) ! s)
      = length (map2 (\<lambda>e x. flip_if (F ! s \<noteq> e) x) E (matmul m D ! s))"
    using assms by (simp add: matmul_def ncols_flip_cols)
next
  fix t assume "t < length (matmul (flip_rows F m) (flip_cols E D) ! s)"
  then have t: "t < ncols D" using assms by (simp add: matmul_def ncols_flip_cols)
  show "matmul (flip_rows F m) (flip_cols E D) ! s ! t
      = map2 (\<lambda>e x. flip_if (F ! s \<noteq> e) x) E (matmul m D ! s) ! t"
    using assms t
    by (simp add: matmul_def ncols_flip_cols flip_rows_nth col_flip_cols dot_flip)
qed

lemma abs_matmul_flip:
  assumes D: "rect D" "length E = ncols D" and F: "length F = length m"
  shows "map (map fabs) (matmul (flip_rows F m) (flip_cols E D)) = map (map fabs) (matmul m D)"
proof (rule nth_equalityI)
  show "length (map (map fabs) (matmul (flip_rows F m) (flip_cols E D)))
      = length (map (map fabs) (matmul m D))"
    using F by (simp add: matmul_def)
next
  fix s assume "s < length (map (map fabs) (matmul (flip_rows F m) (flip_cols E D)))"
  then have s: "s < length m" using F by (simp add: matmul_def)
  have l: "length (matmul m D ! s) = length E" using s D by (simp add: matmul_def)
  have "map fabs (map2 (\<lambda>e x. flip_if (F ! s \<noteq> e) x) E (matmul m D ! s))
      = map fabs (matmul m D ! s)"
    using l by (intro nth_equalityI) simp_all
  then show "map (map fabs) (matmul (flip_rows F m) (flip_cols E D)) ! s
      = map (map fabs) (matmul m D) ! s"
    using s F matmul_row_flip[OF D F s] by (simp add: matmul_def)
qed

lemma map2_fmul_flip3:
  "length E = length r \<Longrightarrow> length r = length a \<Longrightarrow>
   map2 fmul (map2 flip_if E r) (map2 (\<lambda>e x. flip_if (f \<noteq> e) x) E a)
     = map (flip_if f) (map2 fmul r a)"
proof (induction E r a rule: list_induct3)
  case Nil
  show ?case by simp
next
  case (Cons e E x r y a)
  have "(e \<noteq> (f \<noteq> e)) = f" by auto
  then show ?case using Cons by (simp add: fmul_flip)
qed

lemma dot_select:
  "length r = length a \<Longrightarrow> dot (select idx r) (select idx a) = fsum (select idx (map2 fmul r a))"
  by (simp add: dot_def select_map2)

lemma new_row_flip:
  assumes "length E = length r" "length r = length a"
  shows "dot (select idx (map2 flip_if E r)) (select idx (map2 (\<lambda>e x. flip_if (f \<noteq> e) x) E a))
     = flip_if f (dot (select idx r) (select idx a))"
proof -
  have "dot (select idx (map2 flip_if E r)) (select idx (map2 (\<lambda>e x. flip_if (f \<noteq> e) x) E a))
      = fsum (select idx (map2 fmul (map2 flip_if E r) (map2 (\<lambda>e x. flip_if (f \<noteq> e) x) E a)))"
    using assms by (intro dot_select) simp
  also have "\<dots> = fsum (select idx (map (flip_if f) (map2 fmul r a)))"
    using assms by (simp only: map2_fmul_flip3)
  also have "\<dots> = flip_if f (fsum (select idx (map2 fmul r a)))"
    unfolding select_map by (rule fsum_flip)
  also have "\<dots> = flip_if f (dot (select idx r) (select idx a))"
    using assms by (simp add: dot_select)
  finally show ?thesis .
qed

lemma flip_if_zero [simp]: "flip_if b (Fin 0) = Fin 0"
  by (simp add: flip_if_def)

lemma update_state_flip:
  assumes D: "rect D" "length E = ncols D" and F: "length F = length m"
    and act: "\<And>s. s < length m \<Longrightarrow> length (act ! s) = ncols D \<and>
                act' ! s = map2 (\<lambda>e x. flip_if (F ! s \<noteq> e) x) E (act ! s)"
  shows "update_state (flip_cols E D) act' seg s (flip_rows F m)
           = flip_rows F (update_state D act seg s m)"
proof (cases "s < length m")
  case False
  then have "length m \<le> s" "length (flip_rows F m) \<le> s" using F by simp_all
  then show ?thesis by (simp add: update_state_def Let_def list_update_beyond)
next
  case True
  let ?idx = "map (\<lambda>l. l = s) seg"
  have z: "map (\<lambda>x. Fin 0) (flip_rows F m ! s) = map (flip_if (F ! s)) (map (\<lambda>x. Fin 0) (m ! s))"
    using True F by (simp add: flip_rows_nth)
  have "dot (select ?idx (map2 flip_if E row)) (select ?idx (act' ! s))
          = flip_if (F ! s) (dot (select ?idx row) (select ?idx (act ! s)))"
    if "row \<in> set D" for row
    using new_row_flip[of E row "act ! s" ?idx "F ! s"] rect_row[OF D(1) that] D(2) act[OF True]
    by simp
  then have "map (\<lambda>row. dot (select ?idx row) (select ?idx (act' ! s))) (flip_cols E D)
      = map (flip_if (F ! s)) (map (\<lambda>row. dot (select ?idx row) (select ?idx (act ! s))) D)"
    by (simp add: flip_cols_def)
  then have n: "div_by_norm (map (\<lambda>row. dot (select ?idx row) (select ?idx (act' ! s))) (flip_cols E D))
      = map (flip_if (F ! s))
          (div_by_norm (map (\<lambda>row. dot (select ?idx row) (select ?idx (act ! s))) D))"
    by (simp only: div_by_norm_flip)
  show ?thesis
    unfolding update_state_def Let_def z n
    by (simp only: flip_rows_update[OF F] if_distrib[of "flip_rows F"] cong: if_cong)
qed

lemma update_state_length [simp]: "length (update_state d a sg s m) = length m"
  by (simp add: update_state_def Let_def)

lemma fold_update_state_flip:
  assumes D: "rect D" "length E = ncols D"
    and act: "\<And>s. s < length F \<Longrightarrow> length (act ! s) = ncols D \<and>
                act' ! s = map2 (\<lambda>e x. flip_if (F ! s \<noteq> e) x) E (act ! s)"
  shows "length F = length m \<Longrightarrow>
         fold (update_state (flip_cols E D) act' seg) sts (flip_rows F m)
           = flip_rows F (fold (update_state D act seg) sts m)"
proof (induction sts arbitrary: m)
  case Nil
  show ?case by simp
next
  case (Cons s sts)
  have "update_state (flip_cols E D) act' seg s (flip_rows F m)
           = flip_rows F (update_state D act seg s m)"
    using act Cons.prems by (intro update_state_flip[OF D]) simp_all
  then show ?case using Cons.IH[of "update_state D act seg s m"] Cons.prems by simp
qed

lemma map_sq_flip_cols:
  assumes "rect D" "length E = ncols D"
  shows "map (map sq) (flip_cols E D) = map (map sq) D"
proof -
  have "map sq (map2 flip_if E r) = map sq r" if "r \<in> set D" for r
    using rect_row[OF assms(1) that] assms(2) by (intro nth_equalityI) simp_all
  then show ?thesis by (simp add: flip_cols_def)
qed

lemma kmeans_step_flip:
  assumes D: "rect D" "length E = ncols D" and F: "length F = length m"
  shows "kmeans_step (flip_cols E D) K dss (flip_rows F m)
           = map_sum id (\<lambda>(m1, sg, r). (flip_rows F m1, sg, r)) (kmeans_step D K dss m)"
proof (cases "m = []")
  case True
  then show ?thesis using F
    by (simp add: kmeans_step_def Let_def argmax_axis0_def matmul_def flip_rows_def)
next
  case False
  let ?T = "ncols D"
  let ?act = "matmul m D"
  let ?act' = "matmul (flip_rows F m) (flip_cols E D)"
  let ?seg = "map (\<lambda>t. argmax (col (map (map fabs) ?act) t)) [0..<?T]"
  let ?m1 = "fold (update_state D ?act ?seg) [0..<K] m"
  have ne: "map (map fabs) ?act \<noteq> []" using False by (simp add: matmul_def)
  have am: "argmax_axis0 ?T (map (map fabs) ?act) = Inr ?seg"
    using ne by (simp add: argmax_axis0_def)
  have am': "argmax_axis0 ?T (map (map fabs) ?act') = Inr ?seg"
    using am by (simp only: abs_matmul_flip[OF D F])
  have rel: "length (?act ! s) = ?T \<and>
        ?act' ! s = map2 (\<lambda>e x. flip_if (F ! s \<noteq> e) x) E (?act ! s)" if "s < length F" for s
    using that F matmul_row_flip[OF D F, of s] by (simp add: matmul_def)
  have fold: "fold (update_state (flip_cols E D) ?act' ?seg) [0..<K] (flip_rows F m)
      = flip_rows F ?m1"
    using rel by (intro fold_update_state_flip[OF D _ F]) blast
  have segl: "?seg ! t < length m" if "t < ?T" for t
  proof -
    have "argmax (col (map (map fabs) ?act) t) < length (col (map (map fabs) ?act) t)"
      using ne by (intro argmax_less) (simp add: col_def)
    then show ?thesis using that by (simp add: matmul_def)
  qed
  have "sq (dot (flip_rows F ?m1 ! (?seg ! t)) (col (flip_cols E D) t))
      = sq (dot (?m1 ! (?seg ! t)) (col D t))" if "t < ?T" for t
  proof -
    have "flip_rows F ?m1 ! (?seg ! t) = map (flip_if (F ! (?seg ! t))) (?m1 ! (?seg ! t))"
      using segl[OF that] F by (intro flip_rows_nth) simp_all
    then show ?thesis using that by (simp only: col_flip_cols[OF D] dot_flip sq_flip)
  qed
  then have ssq: "map (\<lambda>t. sq (dot (flip_rows F ?m1 ! (?seg ! t)) (col (flip_cols E D) t))) [0..<?T]
      = map (\<lambda>t. sq (dot (?m1 ! (?seg ! t)) (col D t))) [0..<?T]"
    by simp
  show ?thesis
    unfolding kmeans_step_def Let_def ncols_flip_cols[OF D] am am' flip_cols_length
    by (simp only: sum.case fold ssq map_sum.simps prod.case)
qed


lemma kmeans_step_length:
  "kmeans_step D K dss m = Inr (m1, sg, r) \<Longrightarrow> length m1 = length m"
  by (auto simp: kmeans_step_def Let_def split: sum.splits)

lemma kmeans_loop_flip:
  assumes D: "rect D" "length E = ncols D"
  shows "length F = length m \<Longrightarrow>
    kmeans_loop n (flip_cols E D) K th dss (flip_rows F m) prev sg
      = map_sum id (\<lambda>(m1, s). (flip_rows F m1, s)) (kmeans_loop n D K th dss m prev sg)"
proof (induction n arbitrary: m prev sg)
  case 0
  show ?case by simp
next
  case (Suc n)
  note st = kmeans_step_flip[OF D Suc.prems, of K dss]
  show ?case
  proof (cases "kmeans_step D K dss m")
    case (Inl e)
    then show ?thesis using st by simp
  next
    case (Inr x)
    obtain m1 s1 r1 where x: "x = (m1, s1, r1)" by (cases x)
    have l: "length F = length m1" using kmeans_step_length[of D K dss m m1 s1 r1] Inr x Suc.prems by simp
    show ?thesis using Inr x st Suc.IH[OF l] by simp
  qed
qed

lemma compute_maps_from_flip:
  assumes D: "rect D" "length E = ncols D" and valid: "\<forall>t \<in> set init. t < ncols D"
  shows "compute_maps_from init (flip_cols E D) K mi th
      = map_sum id (\<lambda>(m1, s). (flip_rows (map (\<lambda>t. E ! t) init) m1, s))
          (compute_maps_from init D K mi th)"
proof -
  let ?F = "map (\<lambda>t. E ! t) init"
  let ?m0 = "map div_by_norm (map (col D) init)"
  have "map div_by_norm (map (col (flip_cols E D)) init)
      = map (\<lambda>t. map (flip_if (E ! t)) (div_by_norm (col D t))) init"
    using valid by (simp add: col_flip_cols[OF D] div_by_norm_flip)
  also have "\<dots> = flip_rows ?F ?m0"
    by (simp add: flip_rows_def map2_map_map)
  finally have m0: "map div_by_norm (map (col (flip_cols E D)) init) = flip_rows ?F ?m0" .
  have l: "length ?F = length ?m0" by simp
  show ?thesis
    unfolding compute_maps_from_def Let_def m0 map_sq_flip_cols[OF D]
    by (rule kmeans_loop_flip[OF D l])
qed

lemma gev_of_flip:
  assumes D: "rect D" "length E = ncols D" and F: "length F = length m"
    and rows: "\<And>s. s < length m \<Longrightarrow> length (m ! s) = length D"
    and seg: "\<And>t. t < ncols D \<Longrightarrow> sg ! t < length m" and sgl: "length sg = ncols D"
  shows "gev_of (flip_cols E D) (flip_rows F m) sg = gev_of D m sg"
proof -
  let ?T = "ncols D" and ?C = "length D"
  let ?X = "map (\<lambda>l. m ! l) sg" and ?X' = "map (\<lambda>l. flip_rows F m ! l) sg"
  let ?g = "\<lambda>t. nan_to_num0 (fsum (map2 fmul (center_unit (col D t))
                 (center_unit (col (transpose_rows ?C ?X) t))))"
  let ?g' = "\<lambda>t. nan_to_num0 (fsum (map2 fmul (center_unit (col (flip_cols E D) t))
                 (center_unit (col (transpose_rows ?C ?X') t))))"
  let ?b = "\<lambda>t. E ! t \<noteq> F ! (sg ! t)"
  have g: "?g' t = flip_if (?b t) (?g t)" if t: "t < ?T" for t
  proof -
    have c1: "col (transpose_rows ?C ?X) t = m ! (sg ! t)"
      using t sgl rows[OF seg[OF t]] col_transpose_rows[of t ?X ?C] by simp
    have "flip_rows F m ! (sg ! t) = map (flip_if (F ! (sg ! t))) (m ! (sg ! t))"
      using seg[OF t] F by (intro flip_rows_nth) simp_all
    moreover have "col (transpose_rows ?C ?X') t = ?X' ! t"
      using t sgl rows[OF seg[OF t]] seg[OF t] F col_transpose_rows[of t ?X' ?C]
      by (simp add: flip_rows_nth)
    ultimately have c2: "col (transpose_rows ?C ?X') t
        = map (flip_if (F ! (sg ! t))) (col (transpose_rows ?C ?X) t)"
      using t sgl c1 by simp
    show ?thesis
      unfolding c2 col_flip_cols[OF D t] center_unit_flip map2_fmul_flip fsum_flip nan_to_num0_flip
      by (rule refl)
  qed
  have corr: "corr_vectors D (transpose_rows ?C ?X) = map ?g [0..<?T]"
    by (simp add: corr_vectors_def)
  have corr': "corr_vectors (flip_cols E D) (transpose_rows ?C ?X') = map ?g' [0..<?T]"
    by (simp add: corr_vectors_def ncols_flip_cols[OF D])
  have row: "map (\<lambda>(x, c). sq (fmul x c)) (zip (map2 flip_if E r) (map ?g' [0..<?T]))
           = map (\<lambda>(x, c). sq (fmul x c)) (zip r (map ?g [0..<?T]))" if "r \<in> set D" for r
  proof (rule nth_equalityI)
    show "length (map (\<lambda>(x, c). sq (fmul x c)) (zip (map2 flip_if E r) (map ?g' [0..<?T])))
        = length (map (\<lambda>(x, c). sq (fmul x c)) (zip r (map ?g [0..<?T])))"
      using rect_row[OF D(1) that] D(2) by simp
  next
    fix i assume "i < length (map (\<lambda>(x, c). sq (fmul x c)) (zip (map2 flip_if E r) (map ?g' [0..<?T])))"
    then have i: "i < ?T" using rect_row[OF D(1) that] D(2) by simp
    show "map (\<lambda>(x, c). sq (fmul x c)) (zip (map2 flip_if E r) (map ?g' [0..<?T])) ! i
        = map (\<lambda>(x, c). sq (fmul x c)) (zip r (map ?g [0..<?T])) ! i"
      using i rect_row[OF D(1) that] D(2) g[OF i] by (simp add: fmul_flip)
  qed
  have num: "map (\<lambda>row. map (\<lambda>(x, c). sq (fmul x c)) (zip row (map ?g' [0..<?T]))) (flip_cols E D)
      = map (\<lambda>row. map (\<lambda>(x, c). sq (fmul x c)) (zip row (map ?g [0..<?T]))) D"
    using row by (simp add: flip_cols_def)
  show ?thesis
    unfolding gev_of_def Let_def flip_cols_length corr corr' num map_sq_flip_cols[OF D]
    by (rule refl)
qed

lemma negate_column_flip_cols:
  assumes "rect D"
  shows "negate_column j D = flip_cols (map (\<lambda>t. t = j) [0..<ncols D]) D"
proof -
  have "r[j := fneg (r ! j)] = map2 flip_if (map (\<lambda>t. t = j) [0..<ncols D]) r" if "r \<in> set D" for r
    using rect_row[OF assms that] by (intro nth_equalityI) (auto simp: flip_if_def)
  then show ?thesis by (simp add: negate_column_def flip_cols_def)
qed


lemma run_mod_kmeans_flip:
  assumes v: "valid_random rng" and D: "rect D" "length E = ncols D"
  shows "map_sum id (\<lambda>(gev, maps, seg). (gev, seg)) (fst (run_mod_kmeans rng self (flip_cols E D) w))
       = map_sum id (\<lambda>(gev, maps, seg). (gev, seg)) (fst (run_mod_kmeans rng self D w))"
proof -
  let ?K = "n_clusters self" and ?T = "ncols D"
  let ?D' = "flip_cols E D"
  note nc = ncols_flip_cols[OF D]
  obtain g k where g: "as_generator rng w = (g, k)" by (cases "as_generator rng w")
  show ?thesis
  proof (cases "?T < ?K")
    case True
    then show ?thesis by (simp add: run_mod_kmeans_def compute_maps_def choice_def g nc)
  next
    case False
    obtain init g' where d: "draw rng g ?T ?K = (init, g')" by (cases "draw rng g ?T ?K")
    have "length (fst (draw rng g ?T ?K)) = ?K \<and> (\<forall>t \<in> set (fst (draw rng g ?T ?K)). t < ?T)"
      using v False unfolding valid_random_def by (simp add: not_less)
    then have li: "length init = ?K" and vi: "\<forall>t \<in> set init. t < ?T" using d by auto
    let ?F = "map (\<lambda>t. E ! t) init"
    note cf = compute_maps_from_flip[OF D vi, of ?K "max_iter self" "tol self"]
    have cm: "compute_maps rng D ?K (max_iter self) (tol self) w
        = (map_sum id fst (compute_maps_from init D ?K (max_iter self) (tol self)),
           (advance (fst w) g', k))"
      using False by (simp add: compute_maps_def choice_def g d)
    have cm': "compute_maps rng ?D' ?K (max_iter self) (tol self) w
        = (map_sum id fst (compute_maps_from init ?D' ?K (max_iter self) (tol self)),
           (advance (fst w) g', k))"
      using False by (simp add: compute_maps_def choice_def g d nc)
    show ?thesis
    proof (cases "compute_maps_from init D ?K (max_iter self) (tol self)")
      case (Inl e)
      then show ?thesis using cf by (simp add: run_mod_kmeans_def cm cm')
    next
      case (Inr x)
      obtain maps sg0 where x: "x = (maps, sg0)" by (cases x)
      have c: "compute_maps_from init D ?K (max_iter self) (tol self) = Inr (maps, sg0)"
        using Inr x by simp
      have c': "compute_maps_from init ?D' ?K (max_iter self) (tol self)
          = Inr (flip_rows ?F maps, sg0)"
        using cf c by simp
      have sh: "zero_or_normalized (length D) ?K maps sg0"
        by (rule compute_maps_from_shape[OF li c])
      then have lm: "length maps = ?K" by (simp add: zero_or_normalized_def)
      have F: "length ?F = length maps" using li lm by simp
      have rows: "length (maps ! s) = length D" if "s < length maps" for s
        using zero_or_normalized_length[OF sh] that lm by simp
      note ab = abs_matmul_flip[OF D F]
      show ?thesis
      proof (cases "maps = []")
        case True
        then have "flip_rows ?F maps = []" using F by (simp add: flip_rows_def)
        then show ?thesis using True
          by (simp add: run_mod_kmeans_def cm cm' c c' argmax_axis0_def matmul_def)
      next
        case False
        let ?act = "map (map fabs) (matmul maps D)"
        let ?seg = "map (\<lambda>t. argmax (col ?act t)) [0..<?T]"
        have ne: "?act \<noteq> []" using False by (simp add: matmul_def)
        have am: "argmax_axis0 ?T ?act = Inr ?seg" using ne by (simp add: argmax_axis0_def)
        have segl: "?seg ! t < length maps" if "t < ?T" for t
        proof -
          have "argmax (col ?act t) < length (col ?act t)"
            using ne by (intro argmax_less) (simp add: col_def)
          then show ?thesis using that by (simp add: matmul_def)
        qed
        have gv: "gev_of ?D' (flip_rows ?F maps) ?seg = gev_of D maps ?seg"
          using rows segl by (intro gev_of_flip[OF D F]) simp_all
        show ?thesis
          by (simp add: run_mod_kmeans_def cm cm' c c' nc ab am gv del: upt_Suc)
      qed
    qed
  qed
qed

text \<open>
  C1. Negating one sample of a rectangular observation matrix changes neither the
  result of \<^verbatim>\<open>_run_mod_kmeans\<close> being an exception or not, nor the GEV it returns, nor the
  cluster it assigns to any sample; the exception, if any, is the same. (The maps of the
  two runs are equal up to the sign of the rows: lemma \<open>compute_maps_from_flip\<close>.)
\<close>

theorem polarity_invariance:
  assumes "valid_random rng" "rect data"
  shows "map_sum id (\<lambda>(gev, maps, segmentation). (gev, segmentation))
           (fst (run_mod_kmeans rng self (negate_column j data) w))
       = map_sum id (\<lambda>(gev, maps, segmentation). (gev, segmentation))
           (fst (run_mod_kmeans rng self data w))"
  unfolding negate_column_flip_cols[OF assms(2)]
  by (rule run_mod_kmeans_flip[OF assms]) simp

lemma ortho_rect: "rect ortho_data"
  by (simp add: ortho_data_def rect_def ncols_def)

text \<open>The statement on the two orthogonal samples, the second of them negated.\<close>

theorem polarity_invariance_witness:
  "valid_random toy_random \<and> rect ortho_data
   \<and> negate_column 1 ortho_data
       = [[Fin 1, Fin (- 1)], [Fin 1, Fin 1], [Fin (- 1), Fin (- 1)], [Fin (- 1), Fin 1]]
   \<and> map_sum id (\<lambda>(gev, maps, segmentation). (gev, segmentation))
        (fst (run_mod_kmeans toy_random km_ortho (negate_column 1 ortho_data) (Seed 42, 0)))
       = Inr (Fin 1, [0, 1])"
  using polarity_invariance[OF toy_valid ortho_rect, of km_ortho 1 "(Seed 42, 0)"]
    toy_valid ortho_rect ortho_run[of 0]
  by (simp add: negate_column_def ortho_data_def)

section \<open>Properties of the segmentation loop\<close>

lemma sqrt_4 [simp]: "sqrt 4 = 2"
  using real_sqrt_abs[of 2] by simp

lemma sqrt_quarter [simp]: "sqrt (1 / 4) = 1 / 2"
  using real_sqrt_abs[of "1 / 2"] by (simp add: power2_eq_square)

lemma upt5: "[0..<5] = [0, 1, 2, 3, 4]"
  by (simp add: upt_rec)

lemma five_std: "map div_by_std five_samples
  = [[Fin (3/2), Fin (1/2), Fin 0, Fin (- (1/2)), Fin (- (3/2))],
     [Fin (5/4), Fin (5/4), Fin (5/4), Fin (5/4), Fin (- (5/4))]]"
  by (simp add: five_samples_def div_by_std_def np_std_def fmean_def fsub_def of_py_int_def)

lemma unit_std: "map div_by_std unit_centers = [[Fin 2, Fin 0], [Fin 0, Fin 2]]"
  by (simp add: unit_centers_def div_by_std_def np_std_def fmean_def fsub_def of_py_int_def)


lemma five_Vvar: "Vvar_of five_std_data
   = [Fin (61/16), Fin (29/16), Fin (25/16), Fin (29/16), Fin (61/16)]"
  by (simp add: Vvar_of_def five_std_data_def ncols_def upt5 col_def)

lemma five_argmax:
  "argmax_axis0 5 (map (map fabs) (matmul two_states five_std_data)) = Inr [0, 1, 1, 1, 0]"
  by (simp add: argmax_axis0_def matmul_def two_states_def five_std_data_def ncols_def upt5 upt2
      dot_def col_def argmax_def)

lemma five_fitted:
  "fitted (indicator 2 [0, 1, 1, 1, 0]) two_states five_std_data
     = [Fin 3, Fin (5/2), Fin (5/2), Fin (5/2), Fin (- 3)]"
  by (simp add: fitted_def indicator_def two_states_def five_std_data_def ncols_def upt5 upt2
      dot_def col_def)

lemma five_e:
  "fsum (map2 (\<lambda>v f. fsub v (fdiv (sq f)
                (of_py_int (int (ncols five_std_data) * (int (length five_std_data) - 1)))))
          [Fin (61/16), Fin (29/16), Fin (25/16), Fin (29/16), Fin (61/16)]
          [Fin 3, Fin (5/2), Fin (5/2), Fin (5/2), Fin (- 3)]) = Fin (437/80)"
  by (simp add: five_std_data_def ncols_def of_py_int_def fsub_def)

lemma five_next:
  "next_labels two_states five_std_data
      [Fin (61/16), Fin (29/16), Fin (25/16), Fin (29/16), Fin (61/16)] (Fin (437/80)) h (Fin 0) labs
     = Inr [0, 1, 1, 1, 0]"
  by (simp add: next_labels_def two_states_def five_std_data_def ncols_def upt5 upt2
      dot_def col_def argmin_axis0_def argmin_def window_count_def of_py_int_def fsub_def)

lemma five_residual:
  "residual two_states five_std_data
      [Fin (61/16), Fin (29/16), Fin (25/16), Fin (29/16), Fin (61/16)] [0, 1, 1, 1, 0]
     = Fin (- (383/80))"
proof -
  have l: "length two_states = 2" by (simp add: two_states_def)
  show ?thesis
    unfolding residual_def l five_fitted
    by (simp add: five_std_data_def ncols_def of_py_int_def fsub_def)
qed

lemma five_loop:
  "segment_loop two_states five_std_data
      [Fin (61/16), Fin (29/16), Fin (25/16), Fin (29/16), Fin (61/16)] (Fin (437/80)) h (Fin 0)
      (Fin (1/100000)) labs (Fin 0) = Some (Inr [0, 1, 1, 1, 0])"
  apply (subst segment_loop.simps)
  apply (simp only: five_next five_residual sum.case)
  apply (subst segment_loop.simps)
  apply (simp only: five_next five_residual sum.case)
  apply (simp add: fle_def fsub_def)
  done

lemma five_unlabel: "unlabel_ends (map Suc [0, 1, 1, 1, 0]) = Inr [0, 2, 2, 2, 0]"
  by (simp add: unlabel_ends_def)

lemma five_segment:
  "segment five_samples unit_centers h (Fin 0) (Fin (1/100000)) = Some (Inr [0, 2, 2, 2, 0])"
proof -
  have n: "ncols five_std_data = 5" "length five_std_data = 2" "length two_states = 2"
    "ncols two_states = 2"
    by (simp_all add: five_std_data_def two_states_def ncols_def)
  have c: "\<not> (two_states \<noteq> [] \<and> (2::nat) \<noteq> 2)" by simp
  show ?thesis
    by (simp only: segment_def Let_def five_std[folded five_std_data_def]
        unit_std[folded two_states_def] five_Vvar n c if_False five_argmax sum.case five_fitted
        five_e[unfolded n] five_loop option.case five_unlabel)
qed



lemma fle_NaN_left [simp]: "\<not> fle NaN b"
  by (simp add: fle_def)

lemma fabs_NaN [simp]: "fabs NaN = NaN"
  by simp

lemma fsub_NaN_left [simp]: "fsub NaN b = NaN"
  by (simp add: fsub_def)

lemma fle_arg_not_NaN: "fle (fabs (fsub r S0)) b \<Longrightarrow> r \<noteq> NaN"
  by (auto simp: fle_def)

lemma segment_loop_result:
  assumes "segment_loop states data Vvar e h factor crit labs S0 = Some y"
  shows "(\<forall>ex. y = Inl ex \<longrightarrow> (\<exists>labs'. next_labels states data Vvar e h factor labs' = Inl ex)) \<and>
   (\<forall>r. y = Inr r \<longrightarrow> (\<exists>labs'. next_labels states data Vvar e h factor labs' = Inr r)
               \<and> residual states data Vvar r \<noteq> NaN)"
proof (rule segment_loop.raw_induct[where
      P = "\<lambda>states data Vvar e h factor crit labs S0 y.
        (\<forall>ex. y = Inl ex \<longrightarrow> (\<exists>labs'. next_labels states data Vvar e h factor labs' = Inl ex)) \<and>
        (\<forall>r. y = Inr r \<longrightarrow> (\<exists>labs'. next_labels states data Vvar e h factor labs' = Inr r)
               \<and> residual states data Vvar r \<noteq> NaN)", OF _ assms])
  fix loop :: "matrix \<Rightarrow> matrix \<Rightarrow> vec \<Rightarrow> fl \<Rightarrow> nat \<Rightarrow> fl \<Rightarrow> fl \<Rightarrow> nat list \<Rightarrow> fl \<Rightarrow> (exn + nat list) option"
    and states data Vvar e h factor crit labs S0 y
  assume IH: "\<And>states data Vvar e h factor crit labs S0 y.
      loop states data Vvar e h factor crit labs S0 = Some y \<Longrightarrow>
        (\<forall>ex. y = Inl ex \<longrightarrow> (\<exists>labs'. next_labels states data Vvar e h factor labs' = Inl ex)) \<and>
        (\<forall>r. y = Inr r \<longrightarrow> (\<exists>labs'. next_labels states data Vvar e h factor labs' = Inr r)
               \<and> residual states data Vvar r \<noteq> NaN)"
  assume body: "(case next_labels states data Vvar e h factor labs of
        Inl ex \<Rightarrow> Some (Inl ex)
      | Inr dlt \<Rightarrow>
          if fle (fabs (fsub (residual states data Vvar dlt) S0))
                 (fabs (fmul crit (residual states data Vvar dlt)))
          then Some (Inr dlt)
          else loop states data Vvar e h factor crit dlt (residual states data Vvar dlt)) = Some y"
  show "(\<forall>ex. y = Inl ex \<longrightarrow> (\<exists>labs'. next_labels states data Vvar e h factor labs' = Inl ex)) \<and>
        (\<forall>r. y = Inr r \<longrightarrow> (\<exists>labs'. next_labels states data Vvar e h factor labs' = Inr r)
               \<and> residual states data Vvar r \<noteq> NaN)"
  proof (cases "next_labels states data Vvar e h factor labs")
    case (Inl ex)
    then have "y = Inl ex" using body by simp
    then show ?thesis using Inl by blast
  next
    case (Inr dlt)
    show ?thesis
    proof (cases "fle (fabs (fsub (residual states data Vvar dlt) S0))
                      (fabs (fmul crit (residual states data Vvar dlt)))")
      case True
      then have "residual states data Vvar dlt \<noteq> NaN" by (rule fle_arg_not_NaN)
      moreover have "y = Inr dlt" using body Inr True by simp
      ultimately show ?thesis using Inr by blast
    next
      case False
      then have "loop states data Vvar e h factor crit dlt (residual states data Vvar dlt) = Some y"
        using body Inr by simp
      then show ?thesis by (rule IH)
    qed
  qed
qed

lemma next_labels_Inr:
  "states \<noteq> [] \<Longrightarrow> \<exists>dlt. next_labels states data Vvar e h factor labs = Inr dlt"
  by (simp add: next_labels_def argmin_axis0_def)

lemma segment_loop_never:
  assumes "\<And>dlt. residual states data Vvar dlt = NaN" "states \<noteq> []"
  shows "segment_loop states data Vvar e h factor crit labs S0 = None"
proof (cases "segment_loop states data Vvar e h factor crit labs S0")
  case None
  then show ?thesis .
next
  case (Some y)
  note r = segment_loop_result[OF Some]
  show ?thesis
  proof (cases y)
    case (Inl ex)
    then obtain labs' where "next_labels states data Vvar e h factor labs' = Inl ex"
      using r by auto
    then show ?thesis using next_labels_Inr[OF assms(2), of data Vvar e h factor labs'] by simp
  next
    case (Inr dlt)
    then show ?thesis using r assms(1) by simp
  qed
qed

lemma next_labels_no_smoothing:
  "next_labels states data Vvar e h (Fin 0) labs = next_labels states data Vvar e h (Fin 0) labs'"
  by (simp add: next_labels_def window_count_def of_py_int_def)

text \<open>
  C3, amended: the loop of \<^verbatim>\<open>_segment\<close> has no bound on its passes; it ends at the first
  pass whose residual \<^verbatim>\<open>Su\<close> satisfies \<^verbatim>\<open>abs(Su - S0) <= abs(crit * Su)\<close>. Without
  smoothing (\<^verbatim>\<open>factor = 0\<close>) and with a finite \<^verbatim>\<open>crit\<close> every pass chooses the same labels,
  and when their residual is finite the loop ends with them, at the second pass at the
  latest.
\<close>

theorem segment_loop_ends_without_smoothing:
  assumes "next_labels states data Vvar e h (Fin 0) labs = Inr dlt"
    and "residual states data Vvar dlt = Fin s"
  shows "segment_loop states data Vvar e h (Fin 0) (Fin c) labs S0 = Some (Inr dlt)"
proof -
  have n: "next_labels states data Vvar e h (Fin 0) dlt = Inr dlt"
    using assms(1) next_labels_no_smoothing[of states data Vvar e h dlt labs] by simp
  have b: "fle (fabs (fsub (Fin s) (Fin s))) (fabs (fmul (Fin c) (Fin s)))"
    by (simp add: fle_def fsub_def)
  have 2: "segment_loop states data Vvar e h (Fin 0) (Fin c) dlt (Fin s) = Some (Inr dlt)"
    by (subst segment_loop.simps) (simp add: n assms(2) fle_def fsub_def)
  show ?thesis
    by (subst segment_loop.simps) (simp add: assms 2)
qed

text \<open>The loop on the five samples, with \<^verbatim>\<open>half_window_size = 2\<close> and \<^verbatim>\<open>crit = 10e-6\<close>.\<close>

theorem segment_loop_ends_without_smoothing_witness:
  "next_labels two_states five_std_data
      [Fin (61/16), Fin (29/16), Fin (25/16), Fin (29/16), Fin (61/16)] (Fin (437/80)) 2 (Fin 0)
      [0, 1, 1, 1, 0] = Inr [0, 1, 1, 1, 0]
   \<and> residual two_states five_std_data
      [Fin (61/16), Fin (29/16), Fin (25/16), Fin (29/16), Fin (61/16)] [0, 1, 1, 1, 0]
     = Fin (- (383/80))
   \<and> segment_loop two_states five_std_data
      [Fin (61/16), Fin (29/16), Fin (25/16), Fin (29/16), Fin (61/16)] (Fin (437/80)) 2 (Fin 0)
      (Fin (1/100000)) [0, 1, 1, 1, 0] (Fin 0) = Some (Inr [0, 1, 1, 1, 0])"
  using segment_loop_ends_without_smoothing[OF five_next[of 2 "[0, 1, 1, 1, 0]"] five_residual,
      where c = "1/100000" and ?S0.0 = "Fin 0"] five_next[of 2 "[0, 1, 1, 1, 0]"] five_residual
  by simp

lemma flat_std: "map div_by_std flat_channel = [[Fin 1, Fin (- 1)], [NaN, NaN]]"
  by (simp add: flat_channel_def div_by_std_def np_std_def fmean_def fsub_def of_py_int_def
      inf_of_sign_def)

lemma residual_NaN:
  assumes "0 < ncols data"
  shows "residual states data (NaN # vs) dlt = NaN"
proof -
  have "length (fitted (indicator (length states) dlt) states data) = ncols data"
    by (simp add: fitted_def)
  then obtain f fs where "fitted (indicator (length states) dlt) states data = f # fs"
    using assms by (cases "fitted (indicator (length states) dlt) states data") auto
  then show ?thesis by (simp add: residual_def)
qed

text \<open>
  C3, as stated: the iteration is to end on every input, a bound on the passes being
  enforced. There is no bound: on a recording with a channel that is constantly zero
  the standard deviation of that channel is \<open>0\<close>, its normalised samples are \<open>0/0\<close>, every
  residual is \<open>NaN\<close>, the test of the \<^verbatim>\<open>break\<close> is never true and \<^verbatim>\<open>_segment\<close> does not
  return.
\<close>

theorem segment_never_returns_on_flat_channel:
  "segment flat_channel unit_centers 3 (Fin 0) (Fin (1/100000)) = None"
proof -
  have v: "Vvar_of [[Fin 1, Fin (- 1)], [NaN, NaN]] = [NaN, NaN]"
    by (simp add: Vvar_of_def ncols_def upt2 col_def)
  have a: "argmax_axis0 (ncols [[Fin 1, Fin (- 1)], [NaN, NaN]])
      (map (map fabs) (matmul two_states [[Fin 1, Fin (- 1)], [NaN, NaN]])) = Inr [0, 0]"
    by (simp add: argmax_axis0_def matmul_def two_states_def ncols_def upt2 dot_def col_def
        argmax_def)
  have l: "segment_loop two_states [[Fin 1, Fin (- 1)], [NaN, NaN]] [NaN, NaN] e 3 (Fin 0)
      (Fin (1/100000)) [0, 0] (Fin 0) = None" for e
    by (rule segment_loop_never) (simp_all add: residual_NaN ncols_def two_states_def)
  have c: "\<not> (two_states \<noteq> [] \<and> ncols two_states \<noteq> length [[Fin 1, Fin (- 1)], [NaN, NaN]])"
    by (simp add: two_states_def ncols_def)
  show ?thesis
    by (simp only: segment_def Let_def flat_std unit_std[folded two_states_def] v c if_False a
        sum.case l option.case)
qed

section \<open>Properties of \<^verbatim>\<open>predict\<close>\<close>

lemma bad_first_slice: "slice_cols bad_first 1 6 = five_samples"
  by (simp add: slice_cols_def bad_first_def five_samples_def)

lemma bad_last_slice: "slice_cols bad_last 0 5 = five_samples"
  by (simp add: slice_cols_def bad_last_def five_samples_def)

text \<open>
  C5. Every retained interval of at least \<^verbatim>\<open>2 * half_window_size + 1\<close> samples is to be
  segmented and its labels written at its place. \<^verbatim>\<open>predict\<close> closes the last interval at
  \<^verbatim>\<open>data.shape[-1] - 1\<close>: with \<^verbatim>\<open>half_window_size = 2\<close>, the five samples that follow a
  bad first sample are left at \<open>0\<close>, although \<^verbatim>\<open>_segment\<close> labels three of them, and the
  same five samples are segmented when they precede a bad last sample.
\<close>

theorem predict_skips_last_interval:
  "predict km_unit Raw bad_first True [0] [1] 2 (Fin 0) (Fin (1 / 100000))
     = Some (Inr [0, 0, 0, 0, 0, 0])
   \<and> slice_cols bad_first 1 6 = five_samples
   \<and> predict km_unit Raw bad_last True [5] [6] 2 (Fin 0) (Fin (1 / 100000))
     = Some (Inr [0, 2, 2, 2, 0, 0])
   \<and> slice_cols bad_last 0 5 = five_samples
   \<and> segment five_samples unit_centers 2 (Fin 0) (Fin (1 / 100000)) = Some (Inr [0, 2, 2, 2, 0])"
proof -
  have 1: "predict km_unit Raw bad_first True [0] [1] 2 (Fin 0) (Fin (1 / 100000))
     = Some (Inr [0, 0, 0, 0, 0, 0])"
    by (simp add: predict_def km_unit_def check_fit_def bad_first_def ncols_def)
  have n: "ncols bad_last = 6" by (simp add: bad_last_def ncols_def)
  have 2: "predict km_unit Raw bad_last True [5] [6] 2 (Fin 0) (Fin (1 / 100000))
     = Some (Inr [0, 2, 2, 2, 0, 0])"
    using five_segment[of 2]
    by (simp add: predict_def km_unit_def check_fit_def n bad_last_slice assign_slice_def Let_def)
  show ?thesis using 1 2 bad_first_slice bad_last_slice five_segment[of 2] by simp
qed

end
